theory Spec2Isabelle
  imports Main "HOL-Library.Sublist"
begin

section \<open>Strings, character classes and paths\<close>

text \<open>
  A Python \<open>str\<close> is modelled as a \<^typ>\<open>string\<close>: one \<^typ>\<open>char\<close> per code point, for the
  code points below 256. The character classes below are the ones Python's \<open>re\<close> and \<open>str\<close>
  use on that range (\<open>str\<close> patterns, no \<open>re.ASCII\<close> flag).
\<close>

definition code_point :: "char \<Rightarrow> nat" where
  "code_point c = of_char c"

definition newline :: char where
  "newline = CHR 0x0A"

definition carriage_return :: char where
  "carriage_return = CHR 0x0D"

definition backslash :: char where
  "backslash = CHR 0x5C"

definition is_space :: "char \<Rightarrow> bool" where
  \<comment> \<open>\<open>\s\<close> and \<open>str.isspace\<close>\<close>
  "is_space c = (let n = code_point c in
     (9 \<le> n \<and> n \<le> 13) \<or> (28 \<le> n \<and> n \<le> 32) \<or> n = 133 \<or> n = 160)"

definition is_ascii_digit :: "char \<Rightarrow> bool" where
  \<comment> \<open>\<open>\d\<close>, and \<open>0-9\<close>\<close>
  "is_ascii_digit c = (let n = code_point c in 48 \<le> n \<and> n \<le> 57)"

definition is_ascii_alpha :: "char \<Rightarrow> bool" where
  \<comment> \<open>\<open>a-zA-Z\<close>\<close>
  "is_ascii_alpha c = (let n = code_point c in (65 \<le> n \<and> n \<le> 90) \<or> (97 \<le> n \<and> n \<le> 122))"

definition is_word :: "char \<Rightarrow> bool" where
  \<comment> \<open>\<open>\w\<close>: alphanumeric code points and the underscore\<close>
  "is_word c = (let n = code_point c in
     is_ascii_digit c \<or> is_ascii_alpha c \<or> n = 95 \<or>
     n = 170 \<or> n = 178 \<or> n = 179 \<or> n = 181 \<or> n = 185 \<or> n = 186 \<or>
     (188 \<le> n \<and> n \<le> 190) \<or> (192 \<le> n \<and> n \<le> 214) \<or> (216 \<le> n \<and> n \<le> 246) \<or>
     248 \<le> n)"

definition py_lower_char :: "char \<Rightarrow> char" where
  \<comment> \<open>\<open>str.lower\<close> on one code point\<close>
  "py_lower_char c = (let n = code_point c in
     if (65 \<le> n \<and> n \<le> 90) \<or> (192 \<le> n \<and> n \<le> 214) \<or> (216 \<le> n \<and> n \<le> 222)
     then char_of (n + 32) else c)"

definition py_lower :: "string \<Rightarrow> string" where
  "py_lower s = map py_lower_char s"

definition strip :: "string \<Rightarrow> string" where
  \<comment> \<open>\<open>str.strip()\<close>\<close>
  "strip s = rev (dropWhile is_space (rev (dropWhile is_space s)))"

definition startswith :: "string \<Rightarrow> string \<Rightarrow> bool" where
  "startswith pre s = (take (length pre) s = pre)"

definition endswith :: "string \<Rightarrow> string \<Rightarrow> bool" where
  "endswith suf s = (length suf \<le> length s \<and> drop (length s - length suf) s = suf)"

text \<open>\<open>os.path.join\<close> of two components, \<open>os.path.splitext(name)[0]\<close> of a base name (POSIX).\<close>

definition path_join :: "string \<Rightarrow> string \<Rightarrow> string" where
  "path_join a b =
     (if startswith ''/'' b then b
      else if a = [] \<or> endswith ''/'' a then a @ b
      else a @ ''/'' @ b)"

definition splitext_root :: "string \<Rightarrow> string" where
  "splitext_root name =
     (let after_dot = dropWhile (\<lambda>c. c \<noteq> CHR ''.'') (rev name) in
      case after_dot of
        [] \<Rightarrow> name
      | dot # stem \<Rightarrow> if list_ex (\<lambda>c. c \<noteq> CHR ''.'') stem then rev stem else name)"

text \<open>
  \<open>os.path.basename\<close> and \<open>os.path.dirname\<close>, the two halves of \<open>os.path.split\<close>: the path is
  cut after its last slash, and the head loses its trailing slashes unless it consists of
  slashes only.
\<close>

definition basename :: "string \<Rightarrow> string" where
  "basename p = rev (takeWhile (\<lambda>c. c \<noteq> CHR ''/'') (rev p))"

definition dirname :: "string \<Rightarrow> string" where
  "dirname p =
     (let head = rev (dropWhile (\<lambda>c. c \<noteq> CHR ''/'') (rev p))
      in if list_ex (\<lambda>c. c \<noteq> CHR ''/'') head
         then rev (dropWhile (\<lambda>c. c = CHR ''/'') (rev head))
         else head)"

text \<open>
  A pattern \<^verbatim>\<open>lit$\<close> with a literal \<open>lit\<close>: \<^verbatim>\<open>$\<close> matches at the end of the string and also
  just before a newline that is the last character. \<open>re.search\<close> finds it, \<open>re.sub\<close> with
  the empty replacement removes the literal (the final newline stays).
\<close>

definition re_search_at_end :: "string \<Rightarrow> string \<Rightarrow> bool" where
  "re_search_at_end lit s = (endswith lit s \<or> endswith (lit @ [newline]) s)"

definition re_sub_at_end :: "string \<Rightarrow> string \<Rightarrow> string" where
  "re_sub_at_end lit s =
     (if endswith lit s then take (length s - length lit) s
      else if endswith (lit @ [newline]) s then take (length s - length lit - 1) s @ [newline]
      else s)"

section \<open>Dictionaries\<close>

text \<open>
  A Python \<open>dict\<close> keeps insertion order; it is an association list with distinct keys.
  \<open>dict_set\<close> is \<open>d[k] = v\<close>, \<open>dict_append\<close> is \<open>d.setdefault(k, []).append(v)\<close>.
\<close>

fun dict_set :: "'k \<Rightarrow> 'v \<Rightarrow> ('k \<times> 'v) list \<Rightarrow> ('k \<times> 'v) list" where
  "dict_set k v [] = [(k, v)]"
| "dict_set k v ((k', v') # d) = (if k = k' then (k', v) # d else (k', v') # dict_set k v d)"

fun dict_append :: "'k \<Rightarrow> 'v \<Rightarrow> ('k \<times> 'v list) list \<Rightarrow> ('k \<times> 'v list) list" where
  "dict_append k v [] = [(k, [v])]"
| "dict_append k v ((k', vs) # d) =
     (if k = k' then (k', vs @ [v]) # d else (k', vs) # dict_append k v d)"

text \<open>The exceptions that the modelled code can raise.\<close>

datatype py_error =
  IndexError | TypeError | ValueError | NotADirectoryError | FileNotFoundError | OSError | ReError

section \<open>Relative paths\<close>

text \<open>
  \<open>os.path.normpath\<close> and \<open>os.path.abspath\<close> (\<open>cwd\<close> is the working directory):
  empty components and \<open>.\<close> are dropped, \<open>..\<close> removes the component before it, and a
  path that starts with exactly two slashes keeps both.
\<close>

fun str_split :: "char \<Rightarrow> string \<Rightarrow> string list" where
  "str_split sep [] = [[]]"
| "str_split sep (c # s) =
     (if c = sep then [] # str_split sep s
      else (case str_split sep s of
              [] \<Rightarrow> [[c]]
            | x # xs \<Rightarrow> (c # x) # xs))"

definition normpath_step :: "nat \<Rightarrow> string list \<Rightarrow> string \<Rightarrow> string list" where
  "normpath_step initial_slashes new_comps component =
     (if component = [] \<or> component = ''.'' then new_comps
      else if component \<noteq> ''..'' \<or> (initial_slashes = 0 \<and> new_comps = []) \<or>
              (new_comps \<noteq> [] \<and> last new_comps = ''..'')
      then new_comps @ [component]
      else if new_comps \<noteq> [] then butlast new_comps
      else new_comps)"

definition sep_join :: "string list \<Rightarrow> string" where
  \<comment> \<open>\<open>'/'.join(comps)\<close>\<close>
  "sep_join comps =
     (case comps of
        [] \<Rightarrow> []
      | c # rest \<Rightarrow> foldl (\<lambda>path component. path @ ''/'' @ component) c rest)"

definition join_all :: "string list \<Rightarrow> string" where
  \<comment> \<open>\<open>os.path.join(*comps)\<close>\<close>
  "join_all comps = (case comps of [] \<Rightarrow> [] | c # rest \<Rightarrow> foldl path_join c rest)"

definition normpath :: "string \<Rightarrow> string" where
  "normpath path =
     (if path = [] then ''.''
      else
        (let initial_slashes =
               (if startswith ''/'' path
                then (if startswith ''//'' path \<and> \<not> startswith ''///'' path then 2 else 1)
                else 0);
             comps = foldl (normpath_step initial_slashes) [] (str_split (CHR ''/'') path);
             path = replicate initial_slashes (CHR ''/'') @ sep_join comps
         in if path = [] then ''.'' else path))"

definition abspath :: "string \<Rightarrow> string \<Rightarrow> string" where
  "abspath cwd path = normpath (if startswith ''/'' path then path else path_join cwd path)"

text \<open>
  \<open>os.path.relpath(path, start)\<close>: an empty path is refused; otherwise both paths are made
  absolute, and the result climbs from \<open>start\<close> to the longest common prefix of their
  components and descends to \<open>path\<close>.
\<close>

definition relpath :: "string \<Rightarrow> string \<Rightarrow> string \<Rightarrow> py_error + string" where
  "relpath cwd path start =
     (if path = [] then Inl ValueError
      else
        (let start_list = filter (\<lambda>x. x \<noteq> []) (str_split (CHR ''/'') (abspath cwd start));
             path_list = filter (\<lambda>x. x \<noteq> []) (str_split (CHR ''/'') (abspath cwd path));
             i = length (longest_common_prefix start_list path_list);
             rel_list = replicate (length start_list - i) ''..'' @ drop i path_list
         in if rel_list = [] then Inr ''.'' else Inr (join_all rel_list)))"

section \<open>ManifestGenerator: cleaning keys and names\<close>

definition game_words :: "string list" where
  "game_words = [''the'', ''video'', ''action'', ''adventure'', ''playing'']"

definition clean_game_key :: "string \<Rightarrow> string" where
  "clean_game_key raw_key =
     (let clean_key = re_sub_at_end ''_base_game'' raw_key;
          clean_key = (if \<not> re_search_at_end ''_second_base'' clean_key
                       then re_sub_at_end ''_base'' clean_key else clean_key);
          clean_key = (if \<not> list_ex (\<lambda>w. re_search_at_end (''_'' @ w @ ''_game'') clean_key) game_words
                       then re_sub_at_end ''_game'' clean_key else clean_key)
      in clean_key)"

text \<open>\<open>re.sub(r'\s+', ' ', s)\<close>: every maximal run of whitespace becomes one space.\<close>

fun collapse_spaces :: "string \<Rightarrow> string" where
  "collapse_spaces [] = []"
| "collapse_spaces [c] = (if is_space c then '' '' else [c])"
| "collapse_spaces (c # d # s) =
     (if is_space c then
        (if is_space d then collapse_spaces (d # s) else CHR '' '' # collapse_spaces (d # s))
      else c # collapse_spaces (d # s))"

definition clean_game_name :: "string \<Rightarrow> string" where
  "clean_game_name raw_name =
     (let clean_name = map (\<lambda>c. if c \<in> set ''<>:/|?*'' \<or> c = CHR 0x22 \<or> c = backslash then CHR '' '' else c) raw_name;
          clean_name = strip (collapse_spaces clean_name)
      in clean_name)"

section \<open>GameKeyGrouper: ignore patterns\<close>

text \<open>
  \<open>re.escape\<close> (Python 3.7 and later) puts a backslash before each of the characters
  \<^verbatim>\<open>( ) [ ] { } ? * + - | ^ $ . & ~ #\<close>, the backslash, the space and the control characters
  9 to 13, and leaves every other character as it is.
\<close>

definition re_escaped_chars :: "char list" where
  "re_escaped_chars = ''()[]{}?*+-|^$.&~# '' @ [backslash, CHR 0x09, CHR 0x0A, CHR 0x0B, CHR 0x0C, CHR 0x0D]"

definition re_escape :: "string \<Rightarrow> string" where
  "re_escape s = concat (map (\<lambda>c. if c \<in> set re_escaped_chars then [backslash, c] else [c]) s)"

text \<open>\<open>.replace(r'\*', '.*')\<close>: the occurrences of backslash-star, left to right.\<close>

fun replace_escaped_star :: "string \<Rightarrow> string" where
  "replace_escaped_star [] = []"
| "replace_escaped_star [a] = [a]"
| "replace_escaped_star (a # b # r) =
     (if a = backslash \<and> b = CHR ''*'' then ''.*'' @ replace_escaped_star r
      else a # replace_escaped_star (b # r))"

text \<open>
  The regular expressions that reach \<open>re.fullmatch\<close> here are sequences of three forms: a
  backslash followed by a character that is no ASCII letter or digit (that character,
  literally), \<^verbatim>\<open>.*\<close> (any run of characters other than the newline: no \<open>re.DOTALL\<close> flag
  is given), and a character that is not special in a regular expression (itself).
  \<open>re_parse\<close> reads this fragment and gives \<open>None\<close> outside it.
\<close>

datatype re_item = Lit char | AnyStar

definition re_special_chars :: "char list" where
  "re_special_chars = ''.^$*+?{}[]|()'' @ [backslash]"

fun re_parse :: "string \<Rightarrow> re_item list option" where
  "re_parse [] = Some []"
| "re_parse [c] = (if c \<in> set re_special_chars then None else Some [Lit c])"
| "re_parse (c # d # r) =
     (if c = backslash then
        (if is_ascii_alpha d \<or> is_ascii_digit d then None
         else map_option (\<lambda>items. Lit d # items) (re_parse r))
      else if c = CHR ''.'' \<and> d = CHR ''*'' then map_option (\<lambda>items. AnyStar # items) (re_parse r)
      else if c \<in> set re_special_chars then None
      else map_option (\<lambda>items. Lit c # items) (re_parse (d # r)))"

text \<open>A whole string matches a sequence of items (\<open>re.fullmatch\<close>).\<close>

fun re_match_items :: "re_item list \<Rightarrow> string \<Rightarrow> bool" where
  "re_match_items [] s = (s = [])"
| "re_match_items (Lit c # items) [] = False"
| "re_match_items (Lit c # items) (d # s) = (d = c \<and> re_match_items items s)"
| "re_match_items (AnyStar # items) [] = re_match_items items []"
| "re_match_items (AnyStar # items) (d # s) =
     (re_match_items items (d # s) \<or> (d \<noteq> newline \<and> re_match_items (AnyStar # items) s))"

definition re_fullmatch :: "string \<Rightarrow> string \<Rightarrow> bool option" where
  "re_fullmatch pattern s = map_option (\<lambda>items. re_match_items items s) (re_parse pattern)"

definition matches_ignore_pattern :: "string \<Rightarrow> string \<Rightarrow> bool" where
  "matches_ignore_pattern ignore_pattern source_folder_name =
     (re_fullmatch (replace_escaped_star (re_escape ignore_pattern)) source_folder_name = Some True)"

definition is_ignored :: "string list \<Rightarrow> string \<Rightarrow> bool" where
  "is_ignored ignores source_folder_name =
     list_ex (\<lambda>ignore_pattern. matches_ignore_pattern ignore_pattern source_folder_name) ignores"

section \<open>GameKeyGrouper: game key and package version\<close>

text \<open>
  \<open>re.match(r"([a-zA-Z0-9_.]+)_windows_gog_\(([\d\.]+)\)", name)\<close>. The opening parenthesis
  is in neither character class, so it is the first character of the name outside
  \<open>[a-zA-Z0-9_.]\<close>; the run before it ends with \<open>_windows_gog_\<close> and group 1 is the rest of
  that run; group 2 is the whole run of digits and dots after the parenthesis, and a
  closing parenthesis follows it. Whatever comes after is not looked at.
\<close>

definition is_key_char :: "char \<Rightarrow> bool" where
  "is_key_char c = (is_ascii_alpha c \<or> is_ascii_digit c \<or> c = CHR ''_'' \<or> c = CHR ''.'')"

definition is_version_char :: "char \<Rightarrow> bool" where
  "is_version_char c = (is_ascii_digit c \<or> c = CHR ''.'')"

definition match_gog_folder :: "string \<Rightarrow> (string \<times> string) option" where
  "match_gog_folder name =
     (let run = takeWhile is_key_char name;
          rest = dropWhile is_key_char name;
          marker = ''_windows_gog_''
      in if endswith marker run \<and> length marker < length run \<and> startswith ''('' rest then
           (let version = takeWhile is_version_char (tl rest);
                tail = dropWhile is_version_char (tl rest)
            in if version \<noteq> [] \<and> startswith '')'' tail
               then Some (take (length run - length marker) run, version)
               else None)
         else None)"

text \<open>
  \<open>int(version_str)\<close> on a string of ASCII digits; the empty string raises \<open>ValueError\<close>,
  which the caller catches (the version stays \<open>None\<close>). Python's integers are unbounded.
\<close>

definition digit_value :: "char \<Rightarrow> int" where
  "digit_value c = int (code_point c) - 48"

definition int_of_digits :: "string \<Rightarrow> int option" where
  "int_of_digits version_str =
     (if version_str = [] then None
      else Some (foldl (\<lambda>n c. 10 * n + digit_value c) 0 version_str))"

definition derive_game_key :: "string \<Rightarrow> string \<Rightarrow> string \<times> int option" where
  "derive_game_key source_type source_folder_name =
     (if source_type = ''gog-games'' then
        (case match_gog_folder source_folder_name of
           Some (key, version) \<Rightarrow> (key, int_of_digits (filter (\<lambda>c. c \<noteq> CHR ''.'') version))
         | None \<Rightarrow> (source_folder_name, None))
      else (source_folder_name, None))"

type_synonym folder_tuple = "int option \<times> string"

fun group_source_folders ::
  "string \<Rightarrow> string list \<Rightarrow> string list \<Rightarrow> (string \<times> folder_tuple list) list
     \<Rightarrow> (string \<times> folder_tuple list) list" where
  "group_source_folders source_type ignores [] groups = groups"
| "group_source_folders source_type ignores (source_folder_name # names) groups =
     (if is_ignored ignores source_folder_name
      then group_source_folders source_type ignores names groups
      else (let (game_key, package_version) = derive_game_key source_type source_folder_name
            in group_source_folders source_type ignores names
                 (dict_append game_key (package_version, source_folder_name) groups)))"

section \<open>GameKeyGrouper: the latest folder of a key\<close>

text \<open>
  The sort key is the pair \<open>(x[0] is None, x[0])\<close>. Python compares tuples by their first
  differing component, and \<open>False < True\<close>. Two keys with the same first component hold
  two integers or two \<open>None\<close>s, so an integer is never compared with \<open>None\<close>.
\<close>

definition version_sort_key :: "folder_tuple \<Rightarrow> bool \<times> int option" where
  "version_sort_key x = (fst x = None, fst x)"

fun tuple_less :: "bool \<times> int option \<Rightarrow> bool \<times> int option \<Rightarrow> bool" where
  "tuple_less (b1, v1) (b2, v2) =
     (if b1 \<noteq> b2 then \<not> b1 \<and> b2
      else (case (v1, v2) of (Some m, Some n) \<Rightarrow> m < n | _ \<Rightarrow> False))"

text \<open>
  \<open>list.sort(reverse=True, key=...)\<close>: descending by key, and stable (elements with equal
  keys keep their order).
\<close>

fun insert_descending :: "folder_tuple \<Rightarrow> folder_tuple list \<Rightarrow> folder_tuple list" where
  "insert_descending x [] = [x]"
| "insert_descending x (y # ys) =
     (if tuple_less (version_sort_key x) (version_sort_key y) then y # insert_descending x ys
      else x # y # ys)"

definition sort_reverse :: "folder_tuple list \<Rightarrow> folder_tuple list" where
  "sort_reverse xs = foldr insert_descending xs []"

fun select_latest ::
  "(string \<times> folder_tuple list) list \<Rightarrow> (string \<times> string) list
     \<Rightarrow> py_error + (string \<times> string) list" where
  "select_latest [] latest = Inr latest"
| "select_latest ((game_key, source_folder_tuples) # groups) latest =
     (case sort_reverse source_folder_tuples of
        [] \<Rightarrow> Inl IndexError
      | (_, latest_folder_name) # _ \<Rightarrow>
          select_latest groups (dict_set game_key latest_folder_name latest))"

definition get_latest_source_folder_by_game_key ::
  "string \<Rightarrow> string list \<Rightarrow> string list \<Rightarrow> py_error + (string \<times> string) list" where
  "get_latest_source_folder_by_game_key source_type listing ignores =
     select_latest (group_source_folders source_type ignores listing []) []"

section \<open>The environment\<close>

text \<open>
  The file system is a map from paths to nodes; a directory holds the names of its
  entries in the order in which \<open>os.listdir\<close> and \<open>os.scandir\<close> enumerate them (paths are
  compared exactly; permissions and symbolic links are not modelled).
\<close>

datatype node = Absent | File | Dir "string list"

type_synonym filesystem = "string \<Rightarrow> node"

definition path_exists :: "filesystem \<Rightarrow> string \<Rightarrow> bool" where
  "path_exists fs p = (fs p \<noteq> Absent)"

definition is_dir :: "filesystem \<Rightarrow> string \<Rightarrow> bool" where
  "is_dir fs p = (case fs p of Dir entries \<Rightarrow> True | _ \<Rightarrow> False)"

definition listdir :: "filesystem \<Rightarrow> string \<Rightarrow> py_error + string list" where
  "listdir fs p =
     (case fs p of
        Dir entries \<Rightarrow> Inr entries
      | File \<Rightarrow> Inl NotADirectoryError
      | Absent \<Rightarrow> Inl FileNotFoundError)"

definition dir_entries :: "filesystem \<Rightarrow> string \<Rightarrow> string list" where
  "dir_entries fs p = (case fs p of Dir entries \<Rightarrow> entries | _ \<Rightarrow> [])"

subsection \<open>Shell patterns\<close>

text \<open>
  \<open>fnmatch\<close> on POSIX: a pattern is a sequence of \<^verbatim>\<open>*\<close> (any run of characters), \<^verbatim>\<open>?\<close>
  (any one character), character classes in brackets, and characters that stand for
  themselves; an opening bracket with no closing bracket after it stands for itself, and
  the whole name has to match. A class is read here when it is a plain set of
  characters: not empty, and without \<^verbatim>\<open>! ] - ^ [ & ~ |\<close> and the backslash. \<open>fn_parse\<close> gives
  \<open>None\<close> for a pattern with any other class, and such a pattern is left to the parameter
  \<open>lib\<close> of \<open>fnmatch\<close>.
\<close>

datatype fn_item = FnLit char | FnAnyChar | FnStar | FnOneOf string

definition scan_class :: "string \<Rightarrow> (string \<times> string) option" where
  \<comment> \<open>from the text after an opening bracket: the class up to its closing bracket, and the rest\<close>
  "scan_class pat =
     (let j = (if startswith ''!'' pat then 1 else 0);
          j = (if startswith '']'' (drop j pat) then j + 1 else j);
          j = j + length (takeWhile (\<lambda>c. c \<noteq> CHR '']'') (drop j pat))
      in if j < length pat then Some (take j pat, drop (j + 1) pat) else None)"

definition plain_class :: "string \<Rightarrow> bool" where
  "plain_class stuff =
     (stuff \<noteq> [] \<and> list_all (\<lambda>c. c \<notin> set ''!]-^[&~|'' \<and> c \<noteq> backslash) stuff)"

function fn_parse :: "string \<Rightarrow> fn_item list option" where
  "fn_parse [] = Some []"
| "fn_parse (c # pat) =
     (if c = CHR ''*'' then map_option (\<lambda>items. FnStar # items) (fn_parse pat)
      else if c = CHR ''?'' then map_option (\<lambda>items. FnAnyChar # items) (fn_parse pat)
      else if c = CHR ''['' then
        (case scan_class pat of
           None \<Rightarrow> map_option (\<lambda>items. FnLit c # items) (fn_parse pat)
         | Some (stuff, rest) \<Rightarrow>
             if plain_class stuff then map_option (\<lambda>items. FnOneOf stuff # items) (fn_parse rest)
             else None)
      else map_option (\<lambda>items. FnLit c # items) (fn_parse pat))"
  by pat_completeness auto
termination
  by (relation "measure length") (auto simp: scan_class_def Let_def split: if_splits)

fun fn_match_items :: "fn_item list \<Rightarrow> string \<Rightarrow> bool" where
  "fn_match_items [] s = (s = [])"
| "fn_match_items (FnStar # items) [] = fn_match_items items []"
| "fn_match_items (FnStar # items) (d # s) =
     (fn_match_items items (d # s) \<or> fn_match_items (FnStar # items) s)"
| "fn_match_items (item # items) [] = False"
| "fn_match_items (FnLit c # items) (d # s) = (d = c \<and> fn_match_items items s)"
| "fn_match_items (FnAnyChar # items) (d # s) = fn_match_items items s"
| "fn_match_items (FnOneOf stuff # items) (d # s) = (d \<in> set stuff \<and> fn_match_items items s)"

definition fnmatch :: "(string \<Rightarrow> string \<Rightarrow> bool) \<Rightarrow> string \<Rightarrow> string \<Rightarrow> bool" where
  "fnmatch lib pat name =
     (case fn_parse pat of
        Some items \<Rightarrow> fn_match_items items name
      | None \<Rightarrow> lib pat name)"

subsection \<open>Path name expansion\<close>

text \<open>
  \<open>glob.glob(pathname)\<close>. A path with one of \<^verbatim>\<open>* ? [\<close> in it is a pattern, also in its
  directory part: the directory part is expanded first, to directories only (\<open>iglob\<close>
  with \<open>dironly\<close>), and the last component is matched against the entries of each directory
  found (\<open>glob1\<close>, which leaves out the names that start with a dot), or looked up there
  when it has none of the three characters (\<open>glob0\<close>). A directory that cannot be listed
  has no entries, and the empty directory name stands for the working directory \<open>.\<close>.
  The names of the entries are not empty, as in every file system.
\<close>

definition has_magic :: "string \<Rightarrow> bool" where
  "has_magic s = list_ex (\<lambda>c. c \<in> set ''*?['') s"

definition is_hidden :: "string \<Rightarrow> bool" where
  "is_hidden path = startswith ''.'' path"

definition iterdir :: "filesystem \<Rightarrow> string \<Rightarrow> bool \<Rightarrow> string list" where
  "iterdir fs dir dironly =
     (let arg = (if dir \<noteq> [] then dir else ''.'')
      in filter (\<lambda>name. \<not> dironly \<or> is_dir fs (path_join arg name)) (dir_entries fs arg))"

definition glob1 ::
  "(string \<Rightarrow> string \<Rightarrow> bool) \<Rightarrow> filesystem \<Rightarrow> string \<Rightarrow> string \<Rightarrow> bool \<Rightarrow> string list" where
  "glob1 lib fs dir pattern dironly =
     (let names = iterdir fs dir dironly;
          names = (if \<not> is_hidden pattern then filter (\<lambda>x. \<not> is_hidden x) names else names)
      in filter (fnmatch lib pattern) names)"

definition glob0 :: "filesystem \<Rightarrow> string \<Rightarrow> string \<Rightarrow> string list" where
  "glob0 fs dir base =
     (if base \<noteq> [] then (if path_exists fs (path_join dir base) then [base] else [])
      else (if is_dir fs dir then [base] else []))"

function iglob ::
  "(string \<Rightarrow> string \<Rightarrow> bool) \<Rightarrow> filesystem \<Rightarrow> string \<Rightarrow> bool \<Rightarrow> string list" where
  "iglob lib fs pathname dironly =
     (if \<not> has_magic pathname then
        (if basename pathname \<noteq> []
         then (if path_exists fs pathname then [pathname] else [])
         else (if is_dir fs (dirname pathname) then [pathname] else []))
      else if dirname pathname = [] then glob1 lib fs [] (basename pathname) dironly
      else
        (let dirs = (if dirname pathname \<noteq> pathname \<and> has_magic (dirname pathname)
                     then iglob lib fs (dirname pathname) True
                     else [dirname pathname])
         in concat (map (\<lambda>dir. map (path_join dir)
                      (if has_magic (basename pathname)
                       then glob1 lib fs dir (basename pathname) dironly
                       else glob0 fs dir (basename pathname))) dirs)))"
  by pat_completeness auto
termination
proof (relation "measure (\<lambda>(lib, fs, pathname, dironly). length pathname)", goal_cases)
  case 1
  show ?case by simp
next
  case (2 lib fs pathname dironly)
  define t where "t = dropWhile (\<lambda>c. c \<noteq> CHR ''/'') (rev pathname)"
  have a: "suffix t (rev pathname)"
    unfolding t_def by (rule suffix_dropWhile)
  have "suffix (dropWhile (\<lambda>c. c = CHR ''/'') t) t"
    by (rule suffix_dropWhile)
  with a have b: "suffix (dropWhile (\<lambda>c. c = CHR ''/'') t) (rev pathname)"
    using suffix_order.trans by blast
  from a have c: "prefix (rev t) pathname"
    by (simp add: suffix_to_prefix)
  from b have d: "prefix (rev (dropWhile (\<lambda>c. c = CHR ''/'') t)) pathname"
    by (simp add: suffix_to_prefix)
  have "dirname pathname = rev t \<or> dirname pathname = rev (dropWhile (\<lambda>c. c = CHR ''/'') t)"
    by (simp add: dirname_def Let_def t_def)
  with c d have "prefix (dirname pathname) pathname"
    by auto
  then obtain rest where r: "pathname = dirname pathname @ rest"
    by (auto simp: prefix_def)
  with 2 have "rest \<noteq> []" by auto
  moreover have "length pathname = length (dirname pathname) + length rest"
    using r by (metis length_append)
  ultimately show ?case by simp
qed

definition glob :: "(string \<Rightarrow> string \<Rightarrow> bool) \<Rightarrow> filesystem \<Rightarrow> string \<Rightarrow> string list" where
  "glob lib fs pathname = iglob lib fs pathname False"

subsection \<open>What else the generator reads\<close>

text \<open>
  Each of these is an outcome of code that is not modelled further:
  \<open>info_file_details\<close> is the pair that \<open>_get_game_details_from_info_file\<close>
  returns for a game's source directory (it catches every exception);
  \<open>version_in_file_name\<close> is what the version pattern of a clean key finds in an installer's
  file name, or the exception of compiling it; \<open>gogdb_game_name\<close> is the result of
  \<open>GOGDBClient.get_game_name\<close>; \<open>str_title\<close> is \<open>str.title\<close>; \<open>regex_lib\<close> is the outcome of
  compiling the installer pattern of a key that has regular-expression metacharacters
  in it; \<open>fnmatch_lib\<close> tells whether a name matches a shell pattern with a character
  class that is no plain set; \<open>getcwd\<close> is the working directory.
  \<open>manifests_output_dir\<close> is the constructor's argument or the environment
  variable, \<open>save_json_ok\<close> tells whether a file can be written.
\<close>

record env =
  file_system :: filesystem
  info_file_details :: "string \<Rightarrow> string option \<times> string option"
  version_in_file_name :: "string \<Rightarrow> string \<Rightarrow> py_error + string option"
  gogdb_game_name :: "string \<Rightarrow> py_error + string option"
  str_title :: "string \<Rightarrow> string"
  regex_lib :: "string \<Rightarrow> py_error + (string \<Rightarrow> bool)"
  fnmatch_lib :: "string \<Rightarrow> string \<Rightarrow> bool"
  getcwd :: string
  manifests_output_dir :: "string option"
  save_json_ok :: "string \<Rightarrow> bool"

text \<open>
  \<open>glob.glob(os.path.join(game_source_dir, 'setup_*.exe'))\<close>: the directory is not escaped
  (\<open>glob.escape\<close>), so its path is read as a pattern too.
\<close>

definition glob_setup_exe :: "env \<Rightarrow> string \<Rightarrow> string list" where
  "glob_setup_exe E game_source_dir =
     glob (fnmatch_lib E) (file_system E) (path_join game_source_dir ''setup_*.exe'')"

section \<open>InstallerSetResolver\<close>

text \<open>
  \<open>re.compile(rf'^setup_{key_match_pattern}', re.IGNORECASE)\<close>, where the pattern is the
  clean key with each underscore replaced by \<^verbatim>\<open>[-_\s]+\<close>; the key is not escaped. For
  a key without metacharacters the pattern is a sequence of literal characters (compared
  without case) and separator runs, matched at the start of a file name. A key with an
  opening parenthesis and no closing parenthesis, bracket or backslash does not compile.
  Any other key is left to \<open>regex_lib\<close>.
\<close>

datatype key_item = KeyLit char | KeySep

definition key_match_pattern :: "string \<Rightarrow> key_item list" where
  "key_match_pattern clean_key = map (\<lambda>c. if c = CHR ''_'' then KeySep else KeyLit c) clean_key"

definition is_key_sep :: "char \<Rightarrow> bool" where
  "is_key_sep c = (c = CHR ''-'' \<or> c = CHR ''_'' \<or> is_space c)"

fun match_prefix_items :: "key_item list \<Rightarrow> string \<Rightarrow> bool" where
  "match_prefix_items [] s = True"
| "match_prefix_items (KeyLit c # items) [] = False"
| "match_prefix_items (KeyLit c # items) (d # s) =
     (py_lower_char d = py_lower_char c \<and> match_prefix_items items s)"
| "match_prefix_items (KeySep # items) [] = False"
| "match_prefix_items (KeySep # items) (d # s) =
     (is_key_sep d \<and> (match_prefix_items (KeySep # items) s \<or> match_prefix_items items s))"

definition compile_main_installer_pattern ::
  "(string \<Rightarrow> py_error + (string \<Rightarrow> bool)) \<Rightarrow> string \<Rightarrow> py_error + (string \<Rightarrow> bool)" where
  "compile_main_installer_pattern lib clean_key =
     (if list_all (\<lambda>c. c \<notin> set re_special_chars) clean_key
      then Inr (match_prefix_items (map KeyLit ''setup_'' @ key_match_pattern clean_key))
      else if CHR ''('' \<in> set clean_key \<and> CHR '')'' \<notin> set clean_key \<and>
              CHR ''['' \<notin> set clean_key \<and> backslash \<notin> set clean_key
      then Inl ReError
      else lib clean_key)"

definition has_companion_bin :: "filesystem \<Rightarrow> string \<Rightarrow> string \<Rightarrow> bool" where
  "has_companion_bin fs game_source_dir path =
     (let installer_basename = splitext_root (basename path);
          installer_bin_path = path_join game_source_dir (installer_basename @ ''-1.bin'')
      in path_exists fs installer_bin_path)"

definition get_base_installer_path :: "env \<Rightarrow> string \<Rightarrow> string \<Rightarrow> py_error + string option" where
  "get_base_installer_path E clean_key game_source_dir =
     (let all_paths = glob_setup_exe E game_source_dir
      in if all_paths = [] then Inr None
         else
           (let all_paths = sort_key (\<lambda>x. length (basename x)) all_paths
            in case find (has_companion_bin (file_system E) game_source_dir) all_paths of
                 Some path \<Rightarrow> Inr (Some path)
               | None \<Rightarrow>
                   (case compile_main_installer_pattern (regex_lib E) clean_key of
                      Inl e \<Rightarrow> Inl e
                    | Inr main_installer_pattern \<Rightarrow>
                        (case filter (\<lambda>p. main_installer_pattern (basename p)) all_paths of
                           main_path # _ \<Rightarrow> Inr (Some main_path)
                         | [] \<Rightarrow>
                             (case all_paths of
                                first_path # _ \<Rightarrow> Inr (Some first_path)
                              | [] \<Rightarrow> Inl IndexError)))))"

text \<open>\<open>[os.path.relpath(path, start=game_source_dir) for path in sorted_paths]\<close>\<close>

fun rel_paths :: "string \<Rightarrow> string \<Rightarrow> string list \<Rightarrow> py_error + string list" where
  "rel_paths cwd start [] = Inr []"
| "rel_paths cwd start (path # paths) =
     (case relpath cwd path start of
        Inl e \<Rightarrow> Inl e
      | Inr rel \<Rightarrow>
          (case rel_paths cwd start paths of
             Inl e \<Rightarrow> Inl e
           | Inr rels \<Rightarrow> Inr (rel # rels)))"

definition get_sorted_installers :: "env \<Rightarrow> string \<Rightarrow> string \<Rightarrow> bool \<Rightarrow> py_error + string list" where
  "get_sorted_installers E clean_key game_source_dir base_installer_only =
     (case get_base_installer_path E clean_key game_source_dir of
        Inl e \<Rightarrow> Inl e
      | Inr None \<Rightarrow> Inr []
      | Inr (Some base_installer_path) \<Rightarrow>
          if base_installer_path = [] then Inr []
          else
            (let sorted_paths = [base_installer_path];
                 sorted_paths =
                   (if \<not> base_installer_only
                    then sorted_paths @
                           filter (\<lambda>p. p \<noteq> base_installer_path) (glob_setup_exe E game_source_dir)
                    else sorted_paths)
             in rel_paths (getcwd E) game_source_dir sorted_paths))"

section \<open>GameIdentityResolver\<close>

text \<open>\<open>not x\<close> for a string or \<open>None\<close>: true for \<open>None\<close> and for the empty string.\<close>

definition falsy :: "string option \<Rightarrow> bool" where
  "falsy x = (x = None \<or> x = Some [])"

definition get_game_version_from_base_installer ::
  "env \<Rightarrow> string \<Rightarrow> string \<Rightarrow> py_error + string option" where
  "get_game_version_from_base_installer E clean_key game_source_dir =
     (case get_base_installer_path E clean_key game_source_dir of
        Inl e \<Rightarrow> Inl e
      | Inr None \<Rightarrow> Inr None
      | Inr (Some base_installer_path) \<Rightarrow>
          if base_installer_path = [] then Inr None
          else version_in_file_name E clean_key (basename base_installer_path))"

definition get_game_details ::
  "env \<Rightarrow> string \<Rightarrow> string \<Rightarrow> string \<Rightarrow> py_error + (string \<times> string option)" where
  "get_game_details E source_type clean_key game_source_dir =
     (let (name, version) =
            (if source_type = ''gog-service'' then info_file_details E game_source_dir
             else (None, None))
      in case (if falsy version
               then get_game_version_from_base_installer E clean_key game_source_dir
               else Inr version) of
           Inl e \<Rightarrow> Inl e
         | Inr version \<Rightarrow>
             (case (if falsy name then gogdb_game_name E clean_key else Inr name) of
                Inl e \<Rightarrow> Inl e
              | Inr name \<Rightarrow>
                  Inr (case name of
                         Some found \<Rightarrow>
                           if found \<noteq> [] then found
                           else strip (str_title E
                                  (map (\<lambda>c. if c = CHR ''_'' then CHR '' '' else c) clean_key))
                       | None \<Rightarrow>
                           strip (str_title E
                             (map (\<lambda>c. if c = CHR ''_'' then CHR '' '' else c) clean_key)),
                       version)))"

section \<open>ManifestBuilder\<close>

record manifest_record =
  game_name :: string
  game_version :: "string option"
  source_directory :: string
  destination_directory :: string
  sorted_installers :: "string list"

type_synonym manifest = "(string \<times> manifest_record) list"

datatype log_level = Debug | Info | Warning | Error

text \<open>
  The state the generator changes: the records it logs and the JSON files it writes.
  The log holds the records of \<open>generate_manifest\<close> and \<open>save_json\<close> themselves, not those
  of the helper methods.
\<close>

record world =
  log_entries :: "(log_level \<times> string) list"
  saved_json :: "(string \<times> manifest) list"

definition log_msg :: "log_level \<Rightarrow> string \<Rightarrow> world \<Rightarrow> world" where
  "log_msg level msg w = w\<lparr>log_entries := log_entries w @ [(level, msg)]\<rparr>"

definition quoted :: "string \<Rightarrow> string" where
  "quoted s = [CHR 0x27] @ s @ [CHR 0x27]"

text \<open>
  The search for an existing installation: \<open>os.path.exists(p) and os.listdir(p)\<close>;
  \<open>os.listdir\<close> raises on a path that is no directory.
\<close>

fun choose_dest_dir :: "filesystem \<Rightarrow> string \<Rightarrow> string \<Rightarrow> string list \<Rightarrow> py_error + string" where
  "choose_dest_dir fs folder_name game_dest_dir [] = Inr game_dest_dir"
| "choose_dest_dir fs folder_name game_dest_dir (destination_dir # rest) =
     (let possible_game_dir = path_join destination_dir folder_name
      in if path_exists fs possible_game_dir then
           (case listdir fs possible_game_dir of
              Inl e \<Rightarrow> Inl e
            | Inr entries \<Rightarrow>
                if entries \<noteq> [] then Inr possible_game_dir
                else choose_dest_dir fs folder_name game_dest_dir rest)
         else choose_dest_dir fs folder_name game_dest_dir rest)"

text \<open>\<open>overrides.get(source_folder_name)\<close> is tested for truth: a list that is not empty.\<close>

definition override_given :: "(string \<rightharpoonup> string list) \<Rightarrow> string \<Rightarrow> bool" where
  "override_given overrides source_folder_name =
     (case overrides source_folder_name of Some installers \<Rightarrow> installers \<noteq> [] | None \<Rightarrow> False)"

definition choose_installers ::
  "env \<Rightarrow> (string \<rightharpoonup> string list) \<Rightarrow> bool \<Rightarrow> string \<Rightarrow> string \<Rightarrow> string
     \<Rightarrow> py_error + string list" where
  "choose_installers E overrides base_installer_only source_folder_name clean_key game_source_dir =
     (if override_given overrides source_folder_name
      then Inr (case overrides source_folder_name of Some installers \<Rightarrow> installers | None \<Rightarrow> [])
      else get_sorted_installers E clean_key game_source_dir base_installer_only)"

text \<open>
  One pass of the loop of \<open>generate_manifest\<close>, without its log records: the record of a
  game key, or the exception that ends the run.
\<close>

definition game_record ::
  "env \<Rightarrow> string \<Rightarrow> string \<Rightarrow> string \<Rightarrow> string list \<Rightarrow> (string \<rightharpoonup> string list) \<Rightarrow> bool
     \<Rightarrow> string \<Rightarrow> string \<Rightarrow> py_error + manifest_record" where
  "game_record E source_type source_dir default_dest_dir possible_dest_dirs overrides
       base_installer_only game_key source_folder_name =
     (let clean_key = clean_game_key game_key;
          game_source_dir = path_join source_dir source_folder_name
      in case get_game_details E source_type clean_key game_source_dir of
           Inl e \<Rightarrow> Inl e
         | Inr (name, version) \<Rightarrow>
             (let folder_name = clean_game_name name
              in case choose_dest_dir (file_system E) folder_name (path_join default_dest_dir folder_name)
                        possible_dest_dirs of
                   Inl e \<Rightarrow> Inl e
                 | Inr game_dest_dir \<Rightarrow>
                     (case choose_installers E overrides base_installer_only source_folder_name
                             clean_key game_source_dir of
                        Inl e \<Rightarrow> Inl e
                      | Inr installers \<Rightarrow>
                          Inr \<lparr>game_name = folder_name, game_version = version,
                               source_directory = game_source_dir,
                               destination_directory = game_dest_dir,
                               sorted_installers = installers\<rparr>)))"

text \<open>
  The loop over the latest folders. The record about an override is logged before the
  game's record is stored, and nothing between the two can raise.
\<close>

fun manifest_loop ::
  "env \<Rightarrow> string \<Rightarrow> string \<Rightarrow> string \<Rightarrow> string list \<Rightarrow> (string \<rightharpoonup> string list) \<Rightarrow> bool
     \<Rightarrow> (string \<times> string) list \<Rightarrow> manifest \<Rightarrow> world \<Rightarrow> (py_error + manifest) \<times> world" where
  "manifest_loop E source_type source_dir default_dest_dir possible_dest_dirs overrides
       base_installer_only [] manifest_data w = (Inr manifest_data, w)"
| "manifest_loop E source_type source_dir default_dest_dir possible_dest_dirs overrides
       base_installer_only ((game_key, source_folder_name) # rest) manifest_data w =
     (let w = log_msg Info (''Adding game key '' @ quoted game_key @ '' data to manifest'') w
      in case game_record E source_type source_dir default_dest_dir possible_dest_dirs overrides
                base_installer_only game_key source_folder_name of
           Inl e \<Rightarrow> (Inl e, w)
         | Inr r \<Rightarrow>
             (let w = (if override_given overrides source_folder_name
                       then log_msg Info (''Using override installers for game key '' @ quoted game_key) w
                       else w)
              in manifest_loop E source_type source_dir default_dest_dir possible_dest_dirs
                   overrides base_installer_only rest (dict_set game_key r manifest_data) w))"

text \<open>\<open>save_json\<close> logs a failure and raises it again.\<close>

definition save_json :: "env \<Rightarrow> manifest \<Rightarrow> string \<Rightarrow> world \<Rightarrow> (py_error + unit) \<times> world" where
  "save_json E data file_path w =
     (if save_json_ok E file_path
      then (Inr (), w\<lparr>saved_json := saved_json w @ [(file_path, data)]\<rparr>)
      else (Inl OSError, log_msg Error (''Failed to save JSON to '' @ file_path) w))"

definition generate_manifest ::
  "env \<Rightarrow> string \<Rightarrow> string \<Rightarrow> string \<Rightarrow> string list \<Rightarrow> string list \<Rightarrow> (string \<rightharpoonup> string list)
     \<Rightarrow> bool \<Rightarrow> world \<Rightarrow> (py_error + manifest) \<times> world" where
  "generate_manifest E source_type source_dir default_dest_dir possible_dest_dirs ignores overrides
       base_installer_only w =
     (if \<not> is_dir (file_system E) source_dir
      then (Inr [], log_msg Warning (''Source directory not found. Skipping: '' @ source_dir) w)
      else
        (let w = log_msg Info
                   (''Generating manifest data for source type '' @ quoted source_type @ ''...'') w
         in case get_latest_source_folder_by_game_key source_type
                   (dir_entries (file_system E) source_dir) ignores of
              Inl e \<Rightarrow> (Inl e, w)
            | Inr latest_source_folder_by_game_key \<Rightarrow>
                (case manifest_loop E source_type source_dir default_dest_dir possible_dest_dirs
                        overrides base_installer_only latest_source_folder_by_game_key [] w of
                   (Inl e, w) \<Rightarrow> (Inl e, w)
                 | (Inr manifest_data, w) \<Rightarrow>
                     (case manifests_output_dir E of
                        None \<Rightarrow> (Inl TypeError, w)
                      | Some output_dir \<Rightarrow>
                          (let manifest_path = path_join output_dir (source_type @ ''.json'')
                           in case save_json E manifest_data manifest_path w of
                                (Inl e, w) \<Rightarrow> (Inl e, w)
                              | (Inr u, w) \<Rightarrow>
                                  (Inr manifest_data,
                                   log_msg Info
                                     (''Successfully generated and saved manifest: '' @ manifest_path)
                                     w))))))"

text \<open>The consumer (\<open>unpack.py\<close>): a game whose \<open>sorted_installers\<close> is empty is skipped.\<close>

definition games_to_extract :: "manifest \<Rightarrow> manifest" where
  "games_to_extract manifest_data = filter (\<lambda>(game_key, game_data). sorted_installers game_data \<noteq> []) manifest_data"

section \<open>Destination metadata file\<close>

text \<open>
  \<open>create_meta_file\<close> writes one line \<open>key: value\<close> per item, both rendered with \<open>str\<close> and
  stripped; \<open>str(None)\<close> is \<open>None\<close>. The text files are a map from paths to contents, and
  \<open>can_write\<close> tells whether opening a path for writing succeeds.
\<close>

type_synonym meta_data = "(string \<times> string option) list"

definition py_str :: "string option \<Rightarrow> string" where
  "py_str value = (case value of None \<Rightarrow> ''None'' | Some s \<Rightarrow> s)"

definition meta_line :: "string \<times> string option \<Rightarrow> string" where
  "meta_line item = strip (fst item) @ '': '' @ strip (py_str (snd item)) @ [newline]"

definition create_meta_file ::
  "(string \<Rightarrow> bool) \<Rightarrow> string \<Rightarrow> meta_data \<Rightarrow> (string \<rightharpoonup> string) \<Rightarrow> bool \<times> (string \<rightharpoonup> string)" where
  "create_meta_file can_write target_dir game_data files =
     (let meta_file_path = path_join target_dir ''!meta.txt'';
          content = concat (map meta_line game_data)
      in if can_write meta_file_path then (True, files(meta_file_path \<mapsto> content))
         else (False, files))"

text \<open>
  Reading a text file line by line: \<open>\r\n\<close> and \<open>\r\<close> are read as \<open>\n\<close>, and every line keeps
  its final newline.
\<close>

fun universal_newlines :: "string \<Rightarrow> string" where
  "universal_newlines [] = []"
| "universal_newlines [c] = (if c = carriage_return then [newline] else [c])"
| "universal_newlines (c # d # s) =
     (if c = carriage_return then
        (if d = newline then newline # universal_newlines s
         else newline # universal_newlines (d # s))
      else c # universal_newlines (d # s))"

fun split_lines :: "string \<Rightarrow> string \<Rightarrow> string list" where
  "split_lines current [] = (if current = [] then [] else [current])"
| "split_lines current (c # s) =
     (if c = newline then (current @ [c]) # split_lines [] s
      else split_lines (current @ [c]) s)"

text \<open>
  \<open>re.compile(r'^\s*([\w\-]+)\s*:\s*(.*)').match(line)\<close>. The classes of neighbouring parts
  are disjoint, so each greedy run is the only way to match: leading whitespace, the run
  of word characters and hyphens (group 1, not empty), whitespace, a colon, whitespace
  (it may take the final newline), and the characters up to the next newline (group 2).
  The result is the two groups, stripped.
\<close>

definition is_meta_key_char :: "char \<Rightarrow> bool" where
  "is_meta_key_char c = (is_word c \<or> c = CHR ''-'')"

definition parse_meta_line :: "string \<Rightarrow> (string \<times> string) option" where
  "parse_meta_line line =
     (let after_indent = dropWhile is_space line;
          group1 = takeWhile is_meta_key_char after_indent;
          after_key = dropWhile is_space (dropWhile is_meta_key_char after_indent)
      in if group1 \<noteq> [] \<and> startswith '':'' after_key then
           (let group2 = takeWhile (\<lambda>c. c \<noteq> newline) (dropWhile is_space (tl after_key))
            in Some (strip group1, strip group2))
         else None)"

definition read_meta_step :: "meta_data \<Rightarrow> string \<Rightarrow> meta_data" where
  "read_meta_step data line =
     (case parse_meta_line line of
        None \<Rightarrow> data
      | Some (key, value) \<Rightarrow>
          if key \<noteq> [] then
            (if value = [] \<or> py_lower value = ''none'' then dict_set key None data
             else dict_set key (Some value) data)
          else data)"

definition read_meta_file :: "(string \<rightharpoonup> string) \<Rightarrow> string \<Rightarrow> meta_data" where
  "read_meta_file files target_dir =
     (let meta_file_path = path_join target_dir ''!meta.txt''
      in case files meta_file_path of
           None \<Rightarrow> []
         | Some content \<Rightarrow> foldl read_meta_step [] (split_lines [] (universal_newlines content)))"

section \<open>Notions of the specification\<close>

text \<open>
  A glob pattern as the specification words it: \<open>*\<close> stands for a run of characters, any
  other character for itself, and the whole name is matched. \<open>star_char\<close> says which
  characters a run may hold.
\<close>

fun glob_match :: "(char \<Rightarrow> bool) \<Rightarrow> string \<Rightarrow> string \<Rightarrow> bool" where
  "glob_match star_char [] s = (s = [])"
| "glob_match star_char (p # ps) s =
     (if p = CHR ''*''
      then list_ex (\<lambda>n. list_all star_char (take n s) \<and> glob_match star_char ps (drop n s))
             [0..<Suc (length s)]
      else (case s of [] \<Rightarrow> False | d # r \<Rightarrow> d = p \<and> glob_match star_char ps r))"

definition any_char :: "char \<Rightarrow> bool" where
  "any_char c = True"

definition not_newline :: "char \<Rightarrow> bool" where
  "not_newline c = (c \<noteq> newline)"

text \<open>A key still ends with a suffix that \<open>clean_game_key\<close> strips.\<close>

definition unguarded_base :: "string \<Rightarrow> bool" where
  "unguarded_base s = (re_search_at_end ''_base'' s \<and> \<not> re_search_at_end ''_second_base'' s)"

definition unguarded_game :: "string \<Rightarrow> bool" where
  "unguarded_game s =
     (re_search_at_end ''_game'' s \<and>
      \<not> list_ex (\<lambda>w. re_search_at_end (''_'' @ w @ ''_game'') s) game_words)"

text \<open>A path that exists and is not empty: a directory with an entry.\<close>

definition populated :: "filesystem \<Rightarrow> string \<Rightarrow> bool" where
  "populated fs p = (case fs p of Dir entries \<Rightarrow> entries \<noteq> [] | _ \<Rightarrow> False)"

text \<open>The value that is read back for a written value: null for the empty string and \<open>none\<close>.\<close>

definition null_if_none :: "string \<Rightarrow> string option" where
  "null_if_none value = (if value = [] \<or> py_lower value = ''none'' then None else Some value)"

definition no_line_break :: "string \<Rightarrow> bool" where
  "no_line_break s = list_all (\<lambda>c. c \<noteq> newline \<and> c \<noteq> carriage_return) s"

definition is_meta_key :: "string \<Rightarrow> bool" where
  "is_meta_key key = (key \<noteq> [] \<and> list_all is_meta_key_char key)"

text \<open>The tuples under a key, and the tuples a listing puts there, in listing order.\<close>

definition group_of :: "('k \<times> 'v list) list \<Rightarrow> 'k \<Rightarrow> 'v list" where
  "group_of d k = (case map_of d k of None \<Rightarrow> [] | Some vs \<Rightarrow> vs)"

definition kept_tuples :: "string \<Rightarrow> string list \<Rightarrow> string list \<Rightarrow> string \<Rightarrow> folder_tuple list" where
  "kept_tuples source_type ignores names k =
     map (\<lambda>n. (snd (derive_game_key source_type n), n))
       (filter (\<lambda>n. \<not> is_ignored ignores n \<and> fst (derive_game_key source_type n) = k) names)"

text \<open>The items of the regular expression made from an ignore pattern; the folder names in the groups.\<close>

definition pattern_items :: "string \<Rightarrow> re_item list" where
  "pattern_items p = map (\<lambda>c. if c = CHR ''*'' then AnyStar else Lit c) p"

definition grouped_names :: "(string \<times> folder_tuple list) list \<Rightarrow> string list" where
  "grouped_names groups = map snd (concat (map snd groups))"

text \<open>A name that matches the shell pattern \<^verbatim>\<open>setup_*.exe\<close>.\<close>

definition is_setup_exe :: "string \<Rightarrow> bool" where
  "is_setup_exe name = (startswith ''setup_'' name \<and> endswith ''.exe'' name \<and> 10 \<le> length name)"

section \<open>An example run\<close>

text \<open>
  A source directory with two versions of one game (the newer one holds a two-part base
  installer and an extra installer with a shorter name), a folder without installers, a
  folder with an override and an ignored folder; the game is already installed under the
  second of the possible destinations.
\<close>

definition example_fs :: filesystem where
  "example_fs p =
     (if p = ''/src'' then
        Dir [''mygame_windows_gog_(1.2.0)'', ''mygame_windows_gog_(1.5.0)'', ''empty_game'',
             ''patched'', ''notes_old'']
      else if p = ''/src/mygame_windows_gog_(1.2.0)'' then Dir [''setup_mygame_1.2.0_(43210).exe'']
      else if p = ''/src/mygame_windows_gog_(1.2.0)/setup_mygame_1.2.0_(43210).exe'' then File
      else if p = ''/src/mygame_windows_gog_(1.5.0)'' then
        Dir [''setup_mygame_dlc.exe'', ''setup_mygame_1.5.0_(54321).exe'',
             ''setup_mygame_1.5.0_(54321)-1.bin'']
      else if p = ''/src/mygame_windows_gog_(1.5.0)/setup_mygame_dlc.exe'' then File
      else if p = ''/src/mygame_windows_gog_(1.5.0)/setup_mygame_1.5.0_(54321).exe'' then File
      else if p = ''/src/mygame_windows_gog_(1.5.0)/setup_mygame_1.5.0_(54321)-1.bin'' then File
      else if p = ''/src/empty_game'' then Dir [''readme.txt'']
      else if p = ''/src/empty_game/readme.txt'' then File
      else if p = ''/src/patched'' then Dir [''setup_patched.exe'']
      else if p = ''/src/patched/setup_patched.exe'' then File
      else if p = ''/src/notes_old'' then Dir []
      else if p = ''/games1'' then Dir []
      else if p = ''/games2'' then Dir [''Mygame'']
      else if p = ''/games2/Mygame'' then Dir [''game.exe'']
      else if p = ''/games2/Mygame/game.exe'' then File
      else Absent)"

definition example_env :: env where
  "example_env =
     \<lparr>file_system = example_fs,
      info_file_details = (\<lambda>game_source_dir. (None, None)),
      version_in_file_name = (\<lambda>clean_key file_name.
         if file_name = ''setup_mygame_1.5.0_(54321).exe'' then Inr (Some ''1.5.0'')
         else Inr None),
      gogdb_game_name = (\<lambda>clean_key.
         if clean_key = ''mygame'' then Inr (Some ''Mygame'') else Inr None),
      str_title = (\<lambda>s. if s = ''empty'' then ''Empty''
                        else if s = ''patched'' then ''Patched'' else s),
      regex_lib = (\<lambda>clean_key. Inl ReError),
      fnmatch_lib = (\<lambda>pat name. False),
      getcwd = ''/work'',
      manifests_output_dir = Some ''/manifests'',
      save_json_ok = (\<lambda>file_path. True)\<rparr>"

definition example_overrides :: "string \<rightharpoonup> string list" where
  "example_overrides = [''patched'' \<mapsto> [''setup_patched.exe'', ''patch_1.exe'']]"

definition empty_world :: world where
  "empty_world = \<lparr>log_entries = [], saved_json = []\<rparr>"

definition example_manifest :: manifest where
  "example_manifest =
     [(''mygame'',
       \<lparr>game_name = ''Mygame'', game_version = Some ''1.5.0'',
        source_directory = ''/src/mygame_windows_gog_(1.5.0)'',
        destination_directory = ''/games2/Mygame'',
        sorted_installers = [''setup_mygame_1.5.0_(54321).exe'', ''setup_mygame_dlc.exe'']\<rparr>),
      (''empty_game'',
       \<lparr>game_name = ''Empty'', game_version = None,
        source_directory = ''/src/empty_game'',
        destination_directory = ''/games0/Empty'',
        sorted_installers = []\<rparr>),
      (''patched'',
       \<lparr>game_name = ''Patched'', game_version = None,
        source_directory = ''/src/patched'',
        destination_directory = ''/games0/Patched'',
        sorted_installers = [''setup_patched.exe'', ''patch_1.exe'']\<rparr>)]"

text \<open>
  The same folder \<open>patched\<close> with an override that is the empty list; a folder whose name
  has an unclosed parenthesis; a metadata store without files, every path writable.
\<close>

definition empty_override :: "string \<rightharpoonup> string list" where
  "empty_override = [''patched'' \<mapsto> []]"

definition demo_fs :: filesystem where
  "demo_fs p =
     (if p = ''/src/game_(demo'' then Dir [''setup_game.exe'']
      else if p = ''/src/game_(demo/setup_game.exe'' then File
      else Absent)"

definition demo_env :: env where
  "demo_env =
     \<lparr>file_system = demo_fs,
      info_file_details = (\<lambda>game_source_dir. (None, None)),
      version_in_file_name = (\<lambda>clean_key file_name. Inr None),
      gogdb_game_name = (\<lambda>clean_key. Inr None),
      str_title = (\<lambda>s. s),
      regex_lib = (\<lambda>clean_key. Inr (\<lambda>name. False)),
      fnmatch_lib = (\<lambda>pat name. False),
      getcwd = ''/work'',
      manifests_output_dir = Some ''/manifests'',
      save_json_ok = (\<lambda>file_path. True)\<rparr>"

text \<open>
  A source directory whose only game folder has brackets in its name and holds a base
  installer with its companion file.
\<close>

definition bracket_fs :: filesystem where
  "bracket_fs p =
     (if p = ''/src'' then Dir [''Game [GOG]'']
      else if p = ''/src/Game [GOG]'' then Dir [''setup_game.exe'', ''setup_game-1.bin'']
      else if p = ''/src/Game [GOG]/setup_game.exe'' then File
      else if p = ''/src/Game [GOG]/setup_game-1.bin'' then File
      else Absent)"

definition bracket_env :: env where
  "bracket_env = demo_env\<lparr>file_system := bracket_fs\<rparr>"

definition no_overrides :: "string \<rightharpoonup> string list" where
  "no_overrides = Map.empty"

text \<open>A folder with a question mark in its name and no installer, beside a folder with one.\<close>

definition sibling_fs :: filesystem where
  "sibling_fs p =
     (if p = ''/src'' then Dir [''g?'', ''gx'']
      else if p = ''/src/g?'' then Dir [''readme.txt'']
      else if p = ''/src/g?/readme.txt'' then File
      else if p = ''/src/gx'' then Dir [''setup_a.exe'']
      else if p = ''/src/gx/setup_a.exe'' then File
      else Absent)"

definition sibling_env :: env where
  "sibling_env = demo_env\<lparr>file_system := sibling_fs\<rparr>"

definition no_files :: "string \<rightharpoonup> string" where
  "no_files = Map.empty"

definition always_writable :: "string \<Rightarrow> bool" where
  "always_writable file_path = True"

section \<open>Clean keys: when a second cleaning changes nothing\<close>

lemma endswith_suffix: "endswith suf s = suffix suf s"
proof
  assume "endswith suf s"
  then have "s = take (length s - length suf) s @ suf"
    by (metis append_take_drop_id endswith_def)
  then show "suffix suf s" by (metis suffixI)
next
  assume "suffix suf s"
  then obtain zs where "s = zs @ suf" by (auto simp: suffix_def)
  then show "endswith suf s" by (simp add: endswith_def)
qed

lemma re_sub_at_end_length: "length (re_sub_at_end lit s) \<le> length s"
  by (auto simp: re_sub_at_end_def endswith_def)

lemma re_sub_at_end_fix:
  assumes "lit \<noteq> []"
  shows "re_sub_at_end lit s = s \<longleftrightarrow> \<not> re_search_at_end lit s"
proof -
  have a: "endswith lit s \<Longrightarrow> length (take (length s - length lit) s) < length s"
    using assms by (cases lit) (auto simp: endswith_def)
  have b: "endswith (lit @ [newline]) s \<Longrightarrow>
      length (take (length s - length lit - 1) s @ [newline]) < length s"
    using assms by (cases lit) (auto simp: endswith_def)
  show ?thesis
    using a b unfolding re_sub_at_end_def re_search_at_end_def
    by (metis less_irrefl)
qed

lemma base_game_unguarded:
  assumes "re_search_at_end ''_base_game'' s"
  shows "unguarded_game s"
proof -
  have g: "re_search_at_end ''_game'' s"
    using assms unfolding re_search_at_end_def endswith_suffix
    by (auto simp: suffix_def)
  have n: "\<not> re_search_at_end (''_'' @ w @ ''_game'') s" if "w \<in> set game_words" for w
  proof
    assume h: "re_search_at_end (''_'' @ w @ ''_game'') s"
    from assms h have "\<exists>u v. (u = ''_base_game'' \<or> u = ''_base_game'' @ [newline]) \<and>
        (v = ''_'' @ w @ ''_game'' \<or> v = ''_'' @ w @ ''_game'' @ [newline]) \<and>
        suffix u s \<and> suffix v s"
      unfolding re_search_at_end_def endswith_suffix by auto
    then obtain u v where uv: "u = ''_base_game'' \<or> u = ''_base_game'' @ [newline]"
        "v = ''_'' @ w @ ''_game'' \<or> v = ''_'' @ w @ ''_game'' @ [newline]"
        "suffix u s" "suffix v s"
      by blast
    then have "suffix u v \<or> suffix v u" using suffix_same_cases by blast
    with uv(1,2) that show False
      by (auto simp: game_words_def newline_def suffix_Cons)
  qed
  show ?thesis using g n by (auto simp: unguarded_game_def list_ex_iff)
qed

lemma clean_game_key_fixpoint:
  "clean_game_key y = y \<longleftrightarrow> \<not> unguarded_base y \<and> \<not> unguarded_game y"
proof
  assume f: "clean_game_key y = y"
  define c1 where "c1 = re_sub_at_end ''_base_game'' y"
  define c2 where "c2 = (if \<not> re_search_at_end ''_second_base'' c1
                       then re_sub_at_end ''_base'' c1 else c1)"
  define c3 where "c3 =
    (if \<not> list_ex (\<lambda>w. re_search_at_end (''_'' @ w @ ''_game'') c2) game_words
     then re_sub_at_end ''_game'' c2 else c2)"
  have e: "clean_game_key y = c3"
    by (simp add: clean_game_key_def c1_def c2_def c3_def Let_def)
  have l1: "length c1 \<le> length y" by (simp add: c1_def re_sub_at_end_length)
  have l2: "length c2 \<le> length c1" by (simp add: c2_def re_sub_at_end_length)
  have l3: "length c3 \<le> length c2" by (simp add: c3_def re_sub_at_end_length)
  from f e l1 l2 l3 have ll: "length c1 = length y" "length c2 = length c1" by auto
  have "c1 = y \<or> length c1 < length y"
    unfolding c1_def by (auto simp: re_sub_at_end_def endswith_def)
  with ll have c1: "c1 = y" by auto
  have "c2 = c1 \<or> length c2 < length c1"
    unfolding c2_def by (auto simp: re_sub_at_end_def endswith_def)
  with ll have c2: "c2 = y" using c1 by auto
  have c3: "c3 = y" using f e by simp
  have "\<not> unguarded_base y"
    using c2 c1 unfolding c2_def unguarded_base_def
    by (auto simp: re_sub_at_end_fix split: if_splits)
  moreover have "\<not> unguarded_game y"
    using c3 c2 unfolding c3_def unguarded_game_def
    by (auto simp: re_sub_at_end_fix split: if_splits)
  ultimately show "\<not> unguarded_base y \<and> \<not> unguarded_game y" by simp
next
  assume h: "\<not> unguarded_base y \<and> \<not> unguarded_game y"
  then have "\<not> re_search_at_end ''_base_game'' y" using base_game_unguarded by blast
  then have c1: "re_sub_at_end ''_base_game'' y = y" by (simp add: re_sub_at_end_fix)
  have c2: "(if \<not> re_search_at_end ''_second_base'' y then re_sub_at_end ''_base'' y else y) = y"
    using h by (auto simp: unguarded_base_def re_sub_at_end_fix)
  have c3: "(if \<not> list_ex (\<lambda>w. re_search_at_end (''_'' @ w @ ''_game'') y) game_words
             then re_sub_at_end ''_game'' y else y) = y"
    using h by (auto simp: unguarded_game_def re_sub_at_end_fix)
  show "clean_game_key y = y"
    unfolding clean_game_key_def Let_def c1 c2 c3 ..
qed

text \<open>
  C2, as stated, fails: cleaning \<open>foo_base_base\<close> gives \<open>foo_base\<close>, and cleaning that gives
  \<open>foo\<close>; and \<open>second_base_base\<close> is not returned unchanged.
\<close>

theorem clean_game_key_not_idempotent:
  "clean_game_key (clean_game_key ''foo_base_base'') \<noteq> clean_game_key ''foo_base_base'' \<and>
   clean_game_key ''second_base_base'' \<noteq> ''second_base_base''"
  by code_simp

text \<open>
  C2, amended: a second cleaning gives the same key as the first exactly when the key
  cleaned once no longer ends with \<open>_base\<close> (other than \<open>_second_base\<close>) or with \<open>_game\<close> (other
  than after one of the five qualifying words). \<open>foo_base\<close> is cleaned to \<open>foo\<close>,
  \<open>second_base_base\<close> to \<open>second_base\<close>, and \<open>foo_second_base\<close> is returned unchanged.
\<close>

theorem clean_game_key_twice:
  "(clean_game_key (clean_game_key raw_key) = clean_game_key raw_key \<longleftrightarrow>
      \<not> unguarded_base (clean_game_key raw_key) \<and> \<not> unguarded_game (clean_game_key raw_key)) \<and>
   clean_game_key ''foo_base'' = ''foo'' \<and>
   clean_game_key ''second_base_base'' = ''second_base'' \<and>
   clean_game_key ''foo_second_base'' = ''foo_second_base''"
proof -
  have "clean_game_key ''foo_base'' = ''foo''" by code_simp
  moreover have "clean_game_key ''second_base_base'' = ''second_base''" by code_simp
  moreover have "clean_game_key ''foo_second_base'' = ''foo_second_base''" by code_simp
  ultimately show ?thesis using clean_game_key_fixpoint by blast
qed

theorem clean_game_key_twice_witness:
  "clean_game_key (clean_game_key ''foo_the_game_base'') = clean_game_key ''foo_the_game_base'' \<and>
   \<not> unguarded_base (clean_game_key ''foo_the_game_base'') \<and>
   \<not> unguarded_game (clean_game_key ''foo_the_game_base'') \<and>
   clean_game_key ''foo_the_game_base'' = ''foo_the_game''"
proof -
  have a: "clean_game_key ''foo_the_game_base'' = ''foo_the_game''" by code_simp
  have b: "clean_game_key ''foo_the_game'' = ''foo_the_game''" by code_simp
  show ?thesis
    using clean_game_key_twice [of "''foo_the_game_base''"] a b by simp
qed

section \<open>A source directory that is missing\<close>

text \<open>
  C9: when the source directory is missing or is no directory, \<open>generate_manifest\<close> returns
  the empty manifest without raising, logs one warning, and saves no file.
\<close>

theorem missing_source_dir_empty_manifest:
  assumes "\<not> is_dir (file_system E) source_dir"
  shows "generate_manifest E source_type source_dir default_dest_dir possible_dest_dirs ignores
           overrides base_installer_only w =
         (Inr [], w\<lparr>log_entries := log_entries w @
            [(Warning, ''Source directory not found. Skipping: '' @ source_dir)]\<rparr>) \<and>
         saved_json (snd (generate_manifest E source_type source_dir default_dest_dir
           possible_dest_dirs ignores overrides base_installer_only w)) = saved_json w"
  using assms by (simp add: generate_manifest_def log_msg_def)

theorem missing_source_dir_empty_manifest_witness:
  "\<not> is_dir (file_system demo_env) ''/missing'' \<and>
   generate_manifest demo_env ''gog-games'' ''/missing'' ''/games0'' [] [] empty_override False
     empty_world =
   (Inr [], \<lparr>log_entries = [(Warning, ''Source directory not found. Skipping: /missing'')],
             saved_json = []\<rparr>)"
proof -
  have h: "\<not> is_dir (file_system demo_env) ''/missing''"
    by code_simp
  show ?thesis
    using h missing_source_dir_empty_manifest
      [OF h, of "''gog-games''" "''/games0''" "[]" "[]" empty_override False empty_world]
    by (simp add: empty_world_def)
qed

section \<open>The base installer\<close>

lemma find_Some_set: "List.find P ys = Some p \<Longrightarrow> p \<in> set ys \<and> P p"
  by (induction ys) (auto split: if_splits)

lemma find_first_least:
  assumes "sorted (map f ys)" and "List.find P ys = Some p" and "x \<in> set ys" and "P x"
  shows "f p \<le> f x"
  using assms
proof (induction ys)
  case Nil
  then show ?case by simp
next
  case (Cons y ys)
  show ?case
  proof (cases "P y")
    case True
    with Cons.prems have "p = y" by simp
    with Cons.prems(1,3) show ?thesis by auto
  next
    case False
    with Cons.prems have "List.find P ys = Some p" "x \<in> set ys" "sorted (map f ys)" by auto
    with Cons.IH Cons.prems(4) show ?thesis by simp
  qed
qed

lemma find_first_sorted:
  fixes f :: "string \<Rightarrow> nat"
  assumes "List.find P (sort_key f xs) = Some p" and "x \<in> set xs" and "P x"
  shows "f p \<le> f x"
proof -
  have "sorted (map f (sort_key f xs))" by (rule sorted_sort_key)
  moreover have "x \<in> set (sort_key f xs)" using assms(2) by simp
  ultimately show ?thesis by (rule find_first_least [OF _ assms(1) _ assms(3)])
qed

lemma sort_key_not_Nil: "xs \<noteq> [] \<Longrightarrow> sort_key f xs \<noteq> []"
  by (metis length_0_conv length_sort)

text \<open>
  Among the candidates that \<open>glob\<close> returns, one with a companion \<open>-1.bin\<close> file wins: the
  base installer is then the first candidate with a companion in the order of the
  lengths of the file names, whatever the clean key and the outcome of the pattern.
\<close>

lemma companion_among_candidates_wins:
  assumes "candidate \<in> set (glob_setup_exe E game_source_dir)"
    and "has_companion_bin (file_system E) game_source_dir candidate"
  shows "\<exists>path. get_base_installer_path E clean_key game_source_dir = Inr (Some path) \<and>
           path \<in> set (glob_setup_exe E game_source_dir) \<and>
           has_companion_bin (file_system E) game_source_dir path \<and>
           length (basename path) \<le> length (basename candidate)"
proof -
  let ?all = "glob_setup_exe E game_source_dir"
  let ?P = "has_companion_bin (file_system E) game_source_dir"
  let ?f = "\<lambda>x. length (basename x)"
  from assms(1) have ne: "?all \<noteq> []" by auto
  from assms have "List.find ?P (sort_key ?f ?all) \<noteq> None"
    by (auto simp: find_None_iff)
  then obtain path where f: "List.find ?P (sort_key ?f ?all) = Some path" by auto
  then have "path \<in> set (sort_key ?f ?all) \<and> ?P path"
    by (rule find_Some_set)
  then have "path \<in> set ?all" and "?P path" by simp_all
  moreover have "?f path \<le> ?f candidate"
    by (rule find_first_sorted [OF f assms])
  moreover have "get_base_installer_path E clean_key game_source_dir = Inr (Some path)"
    using ne f by (simp add: get_base_installer_path_def Let_def)
  ultimately show ?thesis by simp
qed

text \<open>The pattern \<^verbatim>\<open>setup_*.exe\<close> on a name.\<close>

lemma fn_match_literal: "fn_match_items (map FnLit lit) s \<longleftrightarrow> s = lit"
proof (induction lit arbitrary: s)
  case Nil
  then show ?case by simp
next
  case (Cons c lit)
  then show ?case by (cases s) auto
qed

lemma fn_match_prefix:
  "fn_match_items (map FnLit pre @ items) s \<longleftrightarrow>
     take (length pre) s = pre \<and> fn_match_items items (drop (length pre) s)"
proof (induction pre arbitrary: s)
  case Nil
  then show ?case by simp
next
  case (Cons c pre)
  show ?case
  proof (cases s)
    case Nil
    then show ?thesis by simp
  next
    case (Cons d r)
    with Cons.IH [of r] show ?thesis by auto
  qed
qed

lemma endswith_Cons: "endswith suf (d # s) \<longleftrightarrow> suf = d # s \<or> endswith suf s"
proof (cases "length suf \<le> length s")
  case True
  then have "Suc (length s) - length suf = Suc (length s - length suf)" by simp
  with True show ?thesis by (auto simp: endswith_def)
next
  case False
  then show ?thesis by (auto simp: endswith_def)
qed

lemma fn_match_star_suffix: "fn_match_items (FnStar # map FnLit suf) s \<longleftrightarrow> endswith suf s"
proof (induction s)
  case Nil
  show ?case by (auto simp: fn_match_literal endswith_def)
next
  case (Cons d s)
  then show ?case by (simp add: fn_match_literal endswith_Cons) blast
qed

lemma fnmatch_setup_exe: "fnmatch lib ''setup_*.exe'' name \<longleftrightarrow> is_setup_exe name"
proof -
  have p: "fn_parse ''setup_*.exe'' = Some (map FnLit ''setup_'' @ FnStar # map FnLit ''.exe'')"
    by code_simp
  have l: "length ''setup_'' = 6"
    by simp
  have "fn_match_items (map FnLit ''setup_'' @ FnStar # map FnLit ''.exe'') name \<longleftrightarrow>
      take 6 name = ''setup_'' \<and> endswith ''.exe'' (drop 6 name)"
    by (simp only: fn_match_prefix fn_match_star_suffix l)
  moreover have "take 6 name = ''setup_'' \<and> endswith ''.exe'' (drop 6 name) \<longleftrightarrow> is_setup_exe name"
  proof -
    have l4: "length ''.exe'' = 4"
      by simp
    have s: "startswith ''setup_'' name \<longleftrightarrow> take 6 name = ''setup_''"
      by (simp only: startswith_def l)
    have e1: "endswith ''.exe'' (drop 6 name) \<longleftrightarrow>
        4 \<le> length name - 6 \<and> drop (length name - 6 - 4) (drop 6 name) = ''.exe''"
      by (simp only: endswith_def l4 length_drop)
    have e2: "endswith ''.exe'' name \<longleftrightarrow> 4 \<le> length name \<and> drop (length name - 4) name = ''.exe''"
      by (simp only: endswith_def l4)
    have d: "drop (length name - 6 - 4) (drop 6 name) = drop (length name - 4) name"
      if "10 \<le> length name"
    proof -
      from that have "length name - 6 - 4 + 6 = length name - 4" by arith
      then show ?thesis by (simp only: drop_drop)
    qed
    show ?thesis
    proof (cases "10 \<le> length name")
      case True
      then have "4 \<le> length name - 6" "4 \<le> length name" by arith+
      with True show ?thesis
        unfolding is_setup_exe_def s e1 e2 d [OF True] by blast
    next
      case False
      then have "\<not> 4 \<le> length name - 6" by arith
      with False show ?thesis
        unfolding is_setup_exe_def s e1 e2 by blast
    qed
  qed
  ultimately show ?thesis by (simp add: fnmatch_def p)
qed

lemma setup_exe_not_hidden: "is_setup_exe name \<Longrightarrow> \<not> is_hidden name"
  by (cases name) (auto simp: is_setup_exe_def is_hidden_def startswith_def)

text \<open>
  For a folder whose path has none of \<^verbatim>\<open>* ? [\<close> in it (and is not empty and does not end
  with a slash), \<open>glob\<close> returns the paths of the folder's own entries that match.
\<close>

lemma basename_append:
  assumes "CHR ''/'' \<notin> set name"
  shows "basename (dir @ ''/'' @ name) = name"
proof -
  have "takeWhile (\<lambda>c. c \<noteq> CHR ''/'') (rev name @ CHR ''/'' # rev dir) =
      rev name @ takeWhile (\<lambda>c. c \<noteq> CHR ''/'') (CHR ''/'' # rev dir)"
    by (rule takeWhile_append2) (use assms in auto)
  then show ?thesis by (simp add: basename_def)
qed

lemma endswith_slash: "dir \<noteq> [] \<Longrightarrow> endswith ''/'' dir \<longleftrightarrow> last dir = CHR ''/''"
  by (cases dir rule: rev_cases) (auto simp: endswith_def)

lemma dirname_append:
  assumes "CHR ''/'' \<notin> set name" and "dir \<noteq> []" and "\<not> endswith ''/'' dir"
  shows "dirname (dir @ ''/'' @ name) = dir"
proof -
  from assms(2,3) obtain xs c where d: "dir = xs @ [c]" "c \<noteq> CHR ''/''"
    by (cases dir rule: rev_cases) (auto simp: endswith_def)
  have "dropWhile (\<lambda>c. c \<noteq> CHR ''/'') (rev name @ CHR ''/'' # rev dir) =
      dropWhile (\<lambda>c. c \<noteq> CHR ''/'') (CHR ''/'' # rev dir)"
    by (rule dropWhile_append2) (use assms(1) in auto)
  then have h: "rev (dropWhile (\<lambda>c. c \<noteq> CHR ''/'') (rev (dir @ ''/'' @ name))) = dir @ ''/''"
    by simp
  have "list_ex (\<lambda>c. c \<noteq> CHR ''/'') (dir @ ''/'')"
    using d by (auto simp: list_ex_iff)
  moreover have "rev (dropWhile (\<lambda>c. c = CHR ''/'') (rev (dir @ ''/''))) = dir"
    using d by simp
  ultimately show ?thesis
    unfolding dirname_def Let_def h by simp
qed

lemma glob_setup_exe_plain_dir:
  assumes "\<not> has_magic game_source_dir" and "game_source_dir \<noteq> []"
    and "\<not> endswith ''/'' game_source_dir"
  shows "glob_setup_exe E game_source_dir =
           map (path_join game_source_dir)
             (filter is_setup_exe (dir_entries (file_system E) game_source_dir))"
proof -
  let ?p = "game_source_dir @ ''/setup_*.exe''"
  have j: "path_join game_source_dir ''setup_*.exe'' = ?p"
    using assms(2,3) by (simp add: path_join_def startswith_def)
  have b: "basename ?p = ''setup_*.exe''"
    using basename_append [of "''setup_*.exe''" game_source_dir] by simp
  have d: "dirname ?p = game_source_dir"
    using dirname_append [OF _ assms(2,3), of "''setup_*.exe''"] by simp
  have m: "has_magic ?p" "has_magic ''setup_*.exe''"
    by (simp_all add: has_magic_def)
  have "iglob (fnmatch_lib E) (file_system E) ?p False =
      map (path_join game_source_dir)
        (glob1 (fnmatch_lib E) (file_system E) game_source_dir ''setup_*.exe'' False)"
    by (subst iglob.simps) (simp add: b d m assms del: iglob.simps)
  moreover have "glob1 (fnmatch_lib E) (file_system E) game_source_dir ''setup_*.exe'' False =
      filter is_setup_exe (dir_entries (file_system E) game_source_dir)"
  proof -
    have "\<not> is_hidden ''setup_*.exe''" by (simp add: is_hidden_def startswith_def)
    moreover have "filter (fnmatch (fnmatch_lib E) ''setup_*.exe'') (filter (\<lambda>x. \<not> is_hidden x) xs) =
        filter is_setup_exe xs" for xs
      by (induction xs) (auto simp: fnmatch_setup_exe setup_exe_not_hidden)
    ultimately show ?thesis
      using assms(2) by (simp add: glob1_def iterdir_def Let_def)
  qed
  ultimately show ?thesis
    by (simp add: glob_setup_exe_def glob_def j)
qed

lemma companion_in_plain_folder_wins:
  assumes "\<not> has_magic game_source_dir" and "game_source_dir \<noteq> []"
    and "\<not> endswith ''/'' game_source_dir"
    and "name \<in> set (dir_entries (file_system E) game_source_dir)"
    and "is_setup_exe name"
    and "has_companion_bin (file_system E) game_source_dir (path_join game_source_dir name)"
  shows "\<exists>path. get_base_installer_path E clean_key game_source_dir = Inr (Some path) \<and>
           path \<in> path_join game_source_dir `
             {n \<in> set (dir_entries (file_system E) game_source_dir). is_setup_exe n} \<and>
           has_companion_bin (file_system E) game_source_dir path \<and>
           length (basename path) \<le> length (basename (path_join game_source_dir name))"
proof -
  note g = glob_setup_exe_plain_dir [OF assms(1-3), of E]
  from assms(4,5) have "path_join game_source_dir name \<in> set (glob_setup_exe E game_source_dir)"
    by (simp add: g)
  from companion_among_candidates_wins [OF this assms(6), of clean_key]
  show ?thesis by (simp add: g)
qed

text \<open>
  A folder name with a question mark matches its neighbours: the candidates are then the
  installers of another folder, given relative to the folder that was asked for.
\<close>

lemma folder_name_read_as_pattern:
  "dir_entries (file_system sibling_env) ''/src/g?'' = [''readme.txt''] \<and>
   glob_setup_exe sibling_env ''/src/g?'' = [''/src/gx/setup_a.exe''] \<and>
   rel_paths (getcwd sibling_env) ''/src/g?'' [''/src/gx/setup_a.exe''] =
     Inr [''../gx/setup_a.exe'']"
  by code_simp

text \<open>
  C3: the candidates are looked up with \<open>glob.glob\<close> on a path whose directory part is not
  escaped, while the companion file is looked up with \<open>os.path.exists\<close> on the same
  directory as it is. In a folder named \<open>Game [GOG]\<close> the brackets are read as a character
  class: the folder holds \<open>setup_game.exe\<close> and its companion \<open>setup_game-1.bin\<close>, but no
  candidate is found, so no base installer is selected and the game enters the manifest
  without installers.
\<close>

theorem companion_missed_in_bracket_folder:
  "dir_entries (file_system bracket_env) ''/src/Game [GOG]'' =
     [''setup_game.exe'', ''setup_game-1.bin''] \<and>
   is_setup_exe ''setup_game.exe'' \<and>
   has_companion_bin (file_system bracket_env) ''/src/Game [GOG]''
     (path_join ''/src/Game [GOG]'' ''setup_game.exe'') \<and>
   glob_setup_exe bracket_env ''/src/Game [GOG]'' = [] \<and>
   get_base_installer_path bracket_env ''Game [GOG]'' ''/src/Game [GOG]'' = Inr None \<and>
   fst (generate_manifest bracket_env ''gog-service'' ''/src'' ''/games0'' [] [] no_overrides False
          empty_world) =
     Inr [(''Game [GOG]'',
           \<lparr>game_name = ''Game [GOG]'', game_version = None,
            source_directory = ''/src/Game [GOG]'',
            destination_directory = ''/games0/Game [GOG]'',
            sorted_installers = []\<rparr>)]"
  by code_simp

lemma rel_paths_length: "rel_paths cwd start paths = Inr rels \<Longrightarrow> length rels = length paths"
  by (induction paths arbitrary: rels) (auto split: sum.splits)

lemma get_sorted_installers_base_only:
  "get_sorted_installers E clean_key game_source_dir True =
     (case get_base_installer_path E clean_key game_source_dir of
        Inl e \<Rightarrow> Inl e
      | Inr None \<Rightarrow> Inr []
      | Inr (Some p) \<Rightarrow> if p = [] then Inr [] else rel_paths (getcwd E) game_source_dir [p])"
  by (simp add: get_sorted_installers_def split: sum.splits option.splits)

lemma get_base_installer_path_None:
  "get_base_installer_path E clean_key game_source_dir = Inr None \<longleftrightarrow>
     glob_setup_exe E game_source_dir = []"
  using sort_key_not_Nil [of "glob_setup_exe E game_source_dir" "\<lambda>x. length (basename x)"]
  by (auto simp: get_base_installer_path_def Let_def split: option.splits sum.splits list.splits)

lemma get_base_installer_path_returns:
  assumes "compile_main_installer_pattern (regex_lib E) clean_key = Inr m"
  shows "\<exists>r. get_base_installer_path E clean_key game_source_dir = Inr r"
  using sort_key_not_Nil [of "glob_setup_exe E game_source_dir" "\<lambda>x. length (basename x)"] assms
  by (auto simp: get_base_installer_path_def Let_def split: option.splits sum.splits list.splits)

lemma base_only_at_most_one:
  assumes "get_sorted_installers E clean_key game_source_dir True = Inr installers"
  shows "length installers \<le> 1"
  using assms
  by (auto simp: get_sorted_installers_base_only dest: rel_paths_length
      split: sum.splits option.splits if_splits)

text \<open>
  C8 holds whenever the call returns (\<open>base_only_at_most_one\<close>), and the call returns when
  the installer pattern compiles (\<open>get_base_installer_path_returns\<close>); but the key goes into
  the pattern without \<open>re.escape\<close> (the ignore patterns are escaped), so a key with an
  unclosed parenthesis raises \<open>re.error\<close> as soon as no candidate has a companion file.
\<close>

theorem unescaped_key_raises:
  "glob_setup_exe demo_env ''/src/game_(demo'' = [''/src/game_(demo/setup_game.exe''] \<and>
   get_sorted_installers demo_env ''game_(demo'' ''/src/game_(demo'' True = Inl ReError"
  by code_simp

section \<open>Grouping and the latest folder\<close>

lemma dict_set_fresh: "k \<notin> fst ` set d \<Longrightarrow> dict_set k v d = d @ [(k, v)]"
  by (induction d) auto

lemma dict_append_keys:
  "map fst (dict_append k v d) = (if k \<in> fst ` set d then map fst d else map fst d @ [k])"
  by (induction d) (auto simp: rev_image_eqI)

lemma dict_append_distinct: "distinct (map fst d) \<Longrightarrow> distinct (map fst (dict_append k v d))"
  by (simp add: dict_append_keys)

lemma group_of_dict_append:
  "group_of (dict_append k v d) k' = (if k' = k then group_of d k @ [v] else group_of d k')"
  by (induction d) (auto simp: group_of_def)

lemma dict_append_nonempty:
  "list_all (\<lambda>g. snd g \<noteq> []) d \<Longrightarrow> list_all (\<lambda>g. snd g \<noteq> []) (dict_append k v d)"
  by (induction d) auto

lemma group_source_folders_distinct:
  "distinct (map fst groups) \<Longrightarrow>
   distinct (map fst (group_source_folders source_type ignores names groups))"
  by (induction names arbitrary: groups) (auto simp: dict_append_distinct split: prod.splits)

lemma group_source_folders_nonempty:
  "list_all (\<lambda>g. snd g \<noteq> []) groups \<Longrightarrow>
   list_all (\<lambda>g. snd g \<noteq> []) (group_source_folders source_type ignores names groups)"
proof (induction names arbitrary: groups)
  case Nil
  then show ?case by simp
next
  case (Cons n names)
  show ?case
  proof (cases "is_ignored ignores n")
    case True
    with Cons show ?thesis by simp
  next
    case False
    obtain k v where d: "derive_game_key source_type n = (k, v)" by (cases "derive_game_key source_type n")
    have "list_all (\<lambda>g. snd g \<noteq> []) (dict_append k (v, n) groups)"
      using Cons.prems by (rule dict_append_nonempty)
    then have "list_all (\<lambda>g. snd g \<noteq> [])
        (group_source_folders source_type ignores names (dict_append k (v, n) groups))"
      by (rule Cons.IH)
    with False d show ?thesis by simp
  qed
qed

lemma group_of_group_source_folders:
  "group_of (group_source_folders source_type ignores names groups) k =
     group_of groups k @ kept_tuples source_type ignores names k"
proof (induction names arbitrary: groups)
  case Nil
  then show ?case by (simp add: kept_tuples_def)
next
  case (Cons n names)
  show ?case
  proof (cases "is_ignored ignores n")
    case True
    with Cons show ?thesis by (simp add: kept_tuples_def)
  next
    case False
    obtain k' v where d: "derive_game_key source_type n = (k', v)" by (cases "derive_game_key source_type n")
    have "group_of (group_source_folders source_type ignores names (dict_append k' (v, n) groups)) k
        = group_of (dict_append k' (v, n) groups) k @ kept_tuples source_type ignores names k"
      by (rule Cons.IH)
    with False d show ?thesis
      by (auto simp: group_of_dict_append kept_tuples_def)
  qed
qed

lemma group_of_member:
  "distinct (map fst d) \<Longrightarrow> (k, ts) \<in> set d \<Longrightarrow> group_of d k = ts"
  by (simp add: group_of_def)

lemma group_of_nonmember: "k \<notin> fst ` set d \<Longrightarrow> group_of d k = []"
  by (simp add: group_of_def map_of_eq_None_iff [THEN iffD2])

lemma insert_descending_length: "length (insert_descending x ys) = Suc (length ys)"
  by (induction ys) auto

lemma insert_descending_set: "set (insert_descending x ys) = insert x (set ys)"
  by (induction ys) auto

lemma sort_reverse_length: "length (sort_reverse xs) = length xs"
  unfolding sort_reverse_def by (induction xs) (auto simp: insert_descending_length)

lemma sort_reverse_set: "set (sort_reverse xs) = set xs"
  unfolding sort_reverse_def by (induction xs) (auto simp: insert_descending_set)

lemma sort_reverse_Nil: "sort_reverse xs = [] \<longleftrightarrow> xs = []"
  by (metis length_0_conv sort_reverse_length)

lemma select_latest_result:
  assumes "distinct (map fst groups)" and "list_all (\<lambda>g. snd g \<noteq> []) groups"
    and "fst ` set groups \<inter> fst ` set latest = {}"
  shows "\<exists>new. select_latest groups latest = Inr (latest @ new) \<and>
           list_all2 (\<lambda>g l. fst l = fst g \<and> (\<exists>v rest. sort_reverse (snd g) = (v, snd l) # rest))
             groups new"
  using assms
proof (induction groups arbitrary: latest)
  case Nil
  then show ?case by simp
next
  case (Cons g groups)
  obtain k ts where g: "g = (k, ts)" by (cases g)
  from Cons.prems(2) g have "ts \<noteq> []" by auto
  then obtain v n rest where s: "sort_reverse ts = (v, n) # rest"
    by (metis sort_reverse_Nil list.exhaust surj_pair)
  from Cons.prems(3) g have fresh: "k \<notin> fst ` set latest" by auto
  have "fst ` set groups \<inter> fst ` set (dict_set k n latest) = {}"
    using Cons.prems(1,3) g fresh by (auto simp: dict_set_fresh)
  moreover have "distinct (map fst groups)" "list_all (\<lambda>g. snd g \<noteq> []) groups"
    using Cons.prems by auto
  ultimately obtain new where new: "select_latest groups (dict_set k n latest) = Inr (dict_set k n latest @ new)"
    "list_all2 (\<lambda>g l. fst l = fst g \<and> (\<exists>v rest. sort_reverse (snd g) = (v, snd l) # rest)) groups new"
    using Cons.IH by blast
  have "select_latest (g # groups) latest = Inr (latest @ ((k, n) # new))"
    using g s new(1) fresh by (simp add: dict_set_fresh)
  moreover have "list_all2 (\<lambda>g l. fst l = fst g \<and> (\<exists>v rest. sort_reverse (snd g) = (v, snd l) # rest))
      (g # groups) ((k, n) # new)"
    using g s new(2) by simp
  ultimately show ?case by blast
qed

lemma get_latest_result:
  "\<exists>latest. get_latest_source_folder_by_game_key source_type listing ignores = Inr latest \<and>
     list_all2 (\<lambda>g l. fst l = fst g \<and> (\<exists>v rest. sort_reverse (snd g) = (v, snd l) # rest))
       (group_source_folders source_type ignores listing []) latest"
proof -
  let ?groups = "group_source_folders source_type ignores listing []"
  have "distinct (map fst ?groups)" by (rule group_source_folders_distinct) simp
  moreover have "list_all (\<lambda>g. snd g \<noteq> []) ?groups"
    by (rule group_source_folders_nonempty) simp
  ultimately show ?thesis
    using select_latest_result [of ?groups "[]"]
    by (simp add: get_latest_source_folder_by_game_key_def)
qed

lemma version_less_cases:
  "tuple_less (version_sort_key x) (version_sort_key y) \<longleftrightarrow>
     (fst x \<noteq> None \<and> fst y = None) \<or> (\<exists>m n. fst x = Some m \<and> fst y = Some n \<and> m < n)"
  by (cases "fst x"; cases "fst y") (auto simp: version_sort_key_def)

lemma version_less_trans:
  "tuple_less (version_sort_key x) (version_sort_key y) \<Longrightarrow>
   tuple_less (version_sort_key y) (version_sort_key z) \<Longrightarrow>
   tuple_less (version_sort_key x) (version_sort_key z)"
  unfolding version_less_cases by auto

lemma version_less_negtrans:
  "\<not> tuple_less (version_sort_key x) (version_sort_key y) \<Longrightarrow>
   \<not> tuple_less (version_sort_key y) (version_sort_key z) \<Longrightarrow>
   \<not> tuple_less (version_sort_key x) (version_sort_key z)"
  unfolding version_less_cases by (cases "fst x"; cases "fst y"; cases "fst z") auto

lemma sort_reverse_Cons: "sort_reverse (x # xs) = insert_descending x (sort_reverse xs)"
  by (simp add: sort_reverse_def)

lemma sort_reverse_head:
  assumes "sort_reverse ts = w # rest"
  shows "\<exists>pre post. ts = pre @ w # post \<and>
           (\<forall>t \<in> set pre. tuple_less (version_sort_key t) (version_sort_key w)) \<and>
           (\<forall>t \<in> set post. \<not> tuple_less (version_sort_key w) (version_sort_key t))"
  using assms
proof (induction ts arbitrary: w rest)
  case Nil
  then show ?case by (simp add: sort_reverse_def)
next
  case (Cons x xs)
  show ?case
  proof (cases "sort_reverse xs")
    case Nil
    then have "xs = []" by (simp add: sort_reverse_Nil)
    with Cons.prems have "w = x" by (simp add: sort_reverse_def)
    then have "x # xs = [] @ w # [] \<and>
        (\<forall>t \<in> set []. tuple_less (version_sort_key t) (version_sort_key w)) \<and>
        (\<forall>t \<in> set []. \<not> tuple_less (version_sort_key w) (version_sort_key t))"
      using \<open>xs = []\<close> by simp
    then show ?thesis by blast
  next
    case (Cons w' rest')
    then obtain pre' post' where p: "xs = pre' @ w' # post'"
      "\<forall>t \<in> set pre'. tuple_less (version_sort_key t) (version_sort_key w')"
      "\<forall>t \<in> set post'. \<not> tuple_less (version_sort_key w') (version_sort_key t)"
      using Cons.IH by blast
    show ?thesis
    proof (cases "tuple_less (version_sort_key x) (version_sort_key w')")
      case True
      with Cons Cons.prems have "w = w'" by (simp add: sort_reverse_Cons)
      then have "x # xs = (x # pre') @ w # post'" using p(1) by simp
      moreover have "\<forall>t \<in> set (x # pre'). tuple_less (version_sort_key t) (version_sort_key w)"
        using True p(2) \<open>w = w'\<close> by simp
      ultimately show ?thesis using p(3) \<open>w = w'\<close> by blast
    next
      case False
      with Cons Cons.prems have "w = x" by (simp add: sort_reverse_Cons)
      have "\<not> tuple_less (version_sort_key x) (version_sort_key t)" if "t \<in> set xs" for t
      proof -
        from that p(1) consider "t \<in> set pre'" | "t = w'" | "t \<in> set post'" by auto
        then show ?thesis
        proof cases
          case 1
          then have "tuple_less (version_sort_key t) (version_sort_key w')" using p(2) by simp
          then show ?thesis using False version_less_trans by blast
        next
          case 2
          then show ?thesis using False by simp
        next
          case 3
          then have "\<not> tuple_less (version_sort_key w') (version_sort_key t)" using p(3) by simp
          then show ?thesis using False version_less_negtrans by blast
        qed
      qed
      then have "x # xs = [] @ w # xs \<and>
          (\<forall>t \<in> set []. tuple_less (version_sort_key t) (version_sort_key w)) \<and>
          (\<forall>t \<in> set xs. \<not> tuple_less (version_sort_key w) (version_sort_key t))"
        using \<open>w = x\<close> by simp
      then show ?thesis by blast
    qed
  qed
qed

lemma latest_order:
  assumes "sort_reverse ts = (v, n) # rest"
  shows "(v, n) \<in> set ts \<and>
         ((\<exists>t \<in> set ts. fst t = None) \<longrightarrow> v = None) \<and>
         (\<forall>m. v = Some m \<longrightarrow> (\<forall>t \<in> set ts. \<exists>m'. fst t = Some m' \<and> m' \<le> m)) \<and>
         (\<exists>pre post. ts = pre @ (v, n) # post \<and> (\<forall>t \<in> set pre. fst t \<noteq> v))"
proof -
  obtain pre post where p: "ts = pre @ (v, n) # post"
    "\<forall>t \<in> set pre. tuple_less (version_sort_key t) (version_sort_key (v, n))"
    "\<forall>t \<in> set post. \<not> tuple_less (version_sort_key (v, n)) (version_sort_key t)"
    using sort_reverse_head [OF assms] by blast
  have le: "\<not> tuple_less (version_sort_key (v, n)) (version_sort_key t)" if "t \<in> set ts" for t
  proof -
    from that p(1) consider "t \<in> set pre" | "t = (v, n)" | "t \<in> set post" by auto
    then show ?thesis
    proof cases
      case 1
      then have "tuple_less (version_sort_key t) (version_sort_key (v, n))" using p(2) by simp
      then show ?thesis unfolding version_less_cases by auto
    next
      case 2
      then show ?thesis unfolding version_less_cases by auto
    next
      case 3
      then show ?thesis using p(3) by simp
    qed
  qed
  have a: "(v, n) \<in> set ts" using p(1) by simp
  have b: "v = None" if "t \<in> set ts" "fst t = None" for t
    using le [OF that(1)] that(2) unfolding version_less_cases by auto
  have c: "\<exists>m'. fst t = Some m' \<and> m' \<le> m" if "v = Some m" "t \<in> set ts" for m t
    using le [OF that(2)] that(1) unfolding version_less_cases by (cases "fst t") auto
  have d: "fst t \<noteq> v" if "t \<in> set pre" for t
    using p(2) that unfolding version_less_cases by auto
  show ?thesis using a b c d p(1) by blast
qed

lemma latest_is_head_of_sorted_group:
  assumes "get_latest_source_folder_by_game_key source_type listing ignores = Inr latest"
    and "(k, f) \<in> set latest"
  shows "\<exists>v rest. sort_reverse (kept_tuples source_type ignores listing k) = (v, f) # rest"
proof -
  let ?groups = "group_source_folders source_type ignores listing []"
  from get_latest_result [of source_type listing ignores] assms(1)
  have la: "list_all2 (\<lambda>g l. fst l = fst g \<and> (\<exists>v rest. sort_reverse (snd g) = (v, snd l) # rest))
       ?groups latest" by auto
  have "\<exists>g \<in> set ?groups. fst (k, f) = fst g \<and>
      (\<exists>v rest. sort_reverse (snd g) = (v, snd (k, f)) # rest)"
    using la assms(2) by (induction rule: list_all2_induct) auto
  then obtain g v rest where g: "g \<in> set ?groups" "fst g = k"
    "sort_reverse (snd g) = (v, f) # rest" by auto
  have "distinct (map fst ?groups)" by (rule group_source_folders_distinct) simp
  moreover from g(1,2) have "(k, snd g) \<in> set ?groups" by (metis prod.collapse)
  ultimately have "group_of ?groups k = snd g" by (rule group_of_member)
  moreover have "group_of ?groups k = kept_tuples source_type ignores listing k"
  proof -
    have "group_of ([] :: (string \<times> folder_tuple list) list) k = []"
      by (simp add: group_of_def)
    then show ?thesis by (simp only: group_of_group_source_folders append_Nil)
  qed
  ultimately show ?thesis using g(3) by auto
qed

text \<open>
  C1 fails on the code: the sort is descending and the key of a folder without a version
  token, \<open>(True, None)\<close>, is the greatest, so such a folder outranks every folder with a token
  (\<open>latest_is_head_of_sorted_group\<close>, \<open>latest_order\<close>: the winner has no token whenever some
  folder of the key has none; otherwise it has the greatest token; and it is the first of
  its rank in listing order).
  The folder \<open>game\<close> and the folder \<open>game_windows_gog_(1.2.0)\<close> share the key \<open>game\<close>, and
  \<open>game\<close> is selected, in either listing order. The example of the claim itself holds.
\<close>

theorem unversioned_folder_outranks_versioned:
  "derive_game_key ''gog-games'' ''game'' = (''game'', None) \<and>
   derive_game_key ''gog-games'' ''game_windows_gog_(1.2.0)'' = (''game'', Some 120) \<and>
   get_latest_source_folder_by_game_key ''gog-games'' [''game'', ''game_windows_gog_(1.2.0)''] [] =
     Inr [(''game'', ''game'')] \<and>
   get_latest_source_folder_by_game_key ''gog-games'' [''game_windows_gog_(1.2.0)'', ''game''] [] =
     Inr [(''game'', ''game'')] \<and>
   get_latest_source_folder_by_game_key ''gog-games''
     [''game_windows_gog_(1.0.0)'', ''game_windows_gog_(1.2.0)''] [] =
     Inr [(''game'', ''game_windows_gog_(1.2.0)'')]"
  by code_simp

section \<open>The manifest\<close>

lemma choose_dest_dir_result:
  assumes "choose_dest_dir fs folder_name game_dest_dir dirs = Inr chosen"
  shows "chosen = (case List.find (\<lambda>d. populated fs (path_join d folder_name)) dirs of
                     Some d \<Rightarrow> path_join d folder_name
                   | None \<Rightarrow> game_dest_dir)"
  using assms
proof (induction dirs)
  case Nil
  then show ?case by simp
next
  case (Cons d dirs)
  show ?case
  proof (cases "fs (path_join d folder_name)")
    case Absent
    with Cons show ?thesis by (simp add: path_exists_def populated_def)
  next
    case File
    with Cons.prems show ?thesis by (simp add: path_exists_def listdir_def)
  next
    case (Dir entries)
    with Cons show ?thesis
      by (cases "entries = []") (simp_all add: path_exists_def listdir_def populated_def)
  qed
qed

lemma choose_dest_dir_returns:
  assumes "\<forall>d \<in> set dirs. fs (path_join d folder_name) \<noteq> File"
  shows "\<exists>chosen. choose_dest_dir fs folder_name game_dest_dir dirs = Inr chosen"
  using assms
proof (induction dirs)
  case Nil
  then show ?case by simp
next
  case (Cons d dirs)
  then show ?case
    by (cases "fs (path_join d folder_name)") (auto simp: path_exists_def listdir_def)
qed

lemma game_record_fields:
  assumes "game_record E source_type source_dir default_dest_dir possible_dest_dirs overrides
             base_installer_only game_key source_folder_name = Inr r"
  shows "source_directory r = path_join source_dir source_folder_name \<and>
         choose_dest_dir (file_system E) (game_name r) (path_join default_dest_dir (game_name r))
           possible_dest_dirs = Inr (destination_directory r) \<and>
         choose_installers E overrides base_installer_only source_folder_name
           (clean_game_key game_key) (path_join source_dir source_folder_name) =
           Inr (sorted_installers r) \<and>
         (\<exists>name. get_game_details E source_type (clean_game_key game_key)
                    (path_join source_dir source_folder_name) = Inr (name, game_version r) \<and>
                  game_name r = clean_game_name name)"
  using assms
  by (auto simp: game_record_def Let_def split: sum.splits prod.splits)

lemma manifest_loop_saved:
  "saved_json (snd (manifest_loop E source_type source_dir default_dest_dir possible_dest_dirs
     overrides base_installer_only pairs manifest_data w)) = saved_json w"
proof (induction pairs arbitrary: manifest_data w)
  case Nil
  then show ?case by simp
next
  case (Cons p pairs)
  obtain k f where p: "p = (k, f)" by (cases p)
  show ?case
    unfolding p
    by (cases "game_record E source_type source_dir default_dest_dir possible_dest_dirs overrides
                 base_installer_only k f")
       (simp_all add: Cons.IH Let_def log_msg_def)
qed

lemma manifest_loop_result:
  assumes "manifest_loop E source_type source_dir default_dest_dir possible_dest_dirs overrides
             base_installer_only pairs manifest_data w = (Inr m, w')"
    and "distinct (map fst pairs)" and "fst ` set pairs \<inter> fst ` set manifest_data = {}"
  shows "\<exists>new. m = manifest_data @ new \<and>
           list_all2 (\<lambda>p e. fst e = fst p \<and>
               game_record E source_type source_dir default_dest_dir possible_dest_dirs overrides
                 base_installer_only (fst p) (snd p) = Inr (snd e)) pairs new"
  using assms
proof (induction pairs arbitrary: manifest_data w)
  case Nil
  then show ?case by simp
next
  case (Cons p pairs)
  obtain k f where p: "p = (k, f)" by (cases p)
  from Cons.prems(1) obtain r where r: "game_record E source_type source_dir default_dest_dir
      possible_dest_dirs overrides base_installer_only k f = Inr r"
    unfolding p
    by (cases "game_record E source_type source_dir default_dest_dir possible_dest_dirs overrides
                 base_installer_only k f") (simp_all add: Let_def)
  from Cons.prems(3) p have fresh: "k \<notin> fst ` set manifest_data" by auto
  define w1 where "w1 = log_msg Info (''Adding game key '' @ quoted k @ '' data to manifest'') w"
  define w2 where "w2 = (if override_given overrides f
      then log_msg Info (''Using override installers for game key '' @ quoted k) w1 else w1)"
  have step: "manifest_loop E source_type source_dir default_dest_dir possible_dest_dirs overrides
      base_installer_only pairs (manifest_data @ [(k, r)]) w2 = (Inr m, w')"
    using Cons.prems(1) r fresh unfolding p w1_def w2_def
    by (auto simp: Let_def dict_set_fresh split: if_splits)
  have "fst ` set pairs \<inter> fst ` set (manifest_data @ [(k, r)]) = {}"
    using Cons.prems(2,3) p by auto
  moreover have "distinct (map fst pairs)" using Cons.prems(2) by simp
  ultimately obtain new where new: "m = (manifest_data @ [(k, r)]) @ new"
    "list_all2 (\<lambda>p e. fst e = fst p \<and>
               game_record E source_type source_dir default_dest_dir possible_dest_dirs overrides
                 base_installer_only (fst p) (snd p) = Inr (snd e)) pairs new"
    using Cons.IH [OF step] by blast
  have "m = manifest_data @ ((k, r) # new)" using new(1) by simp
  moreover have "list_all2 (\<lambda>p e. fst e = fst p \<and>
               game_record E source_type source_dir default_dest_dir possible_dest_dirs overrides
                 base_installer_only (fst p) (snd p) = Inr (snd e)) (p # pairs) ((k, r) # new)"
    using new(2) r p by simp
  ultimately show ?case by blast
qed

lemma latest_keys_distinct:
  assumes "get_latest_source_folder_by_game_key source_type listing ignores = Inr latest"
  shows "distinct (map fst latest)"
proof -
  let ?groups = "group_source_folders source_type ignores listing []"
  obtain l where l: "get_latest_source_folder_by_game_key source_type listing ignores = Inr l"
    "list_all2 (\<lambda>g l. fst l = fst g \<and> (\<exists>v rest. sort_reverse (snd g) = (v, snd l) # rest))
       ?groups l"
    using get_latest_result by blast
  then have "list_all2 (\<lambda>g l. fst g = fst l) ?groups l"
    by (auto elim: list_all2_mono)
  then have "map fst ?groups = map fst l"
    by (simp add: list_all2_conv_all_nth list_eq_iff_nth_eq)
  moreover have "distinct (map fst ?groups)" by (rule group_source_folders_distinct) simp
  ultimately show ?thesis using l(1) assms by simp
qed

lemma generate_manifest_result:
  assumes "generate_manifest E source_type source_dir default_dest_dir possible_dest_dirs ignores
             overrides base_installer_only w = (Inr m, w')"
    and "is_dir (file_system E) source_dir"
  shows "\<exists>latest output_dir.
           get_latest_source_folder_by_game_key source_type
             (dir_entries (file_system E) source_dir) ignores = Inr latest \<and>
           list_all2 (\<lambda>p e. fst e = fst p \<and>
               game_record E source_type source_dir default_dest_dir possible_dest_dirs overrides
                 base_installer_only (fst p) (snd p) = Inr (snd e)) latest m \<and>
           manifests_output_dir E = Some output_dir \<and>
           save_json_ok E (path_join output_dir (source_type @ ''.json'')) \<and>
           saved_json w' = saved_json w @ [(path_join output_dir (source_type @ ''.json''), m)]"
proof -
  define w1 where "w1 = log_msg Info
     (''Generating manifest data for source type '' @ quoted source_type @ ''...'') w"
  obtain latest where latest: "get_latest_source_folder_by_game_key source_type
      (dir_entries (file_system E) source_dir) ignores = Inr latest"
    using get_latest_result by blast
  obtain res w2 where loop: "manifest_loop E source_type source_dir default_dest_dir
      possible_dest_dirs overrides base_installer_only latest [] w1 = (res, w2)"
    by (cases "manifest_loop E source_type source_dir default_dest_dir
      possible_dest_dirs overrides base_installer_only latest [] w1")
  have g: "generate_manifest E source_type source_dir default_dest_dir possible_dest_dirs ignores
      overrides base_installer_only w =
      (case res of Inl e \<Rightarrow> (Inl e, w2)
       | Inr manifest_data \<Rightarrow>
          (case manifests_output_dir E of None \<Rightarrow> (Inl TypeError, w2)
           | Some output_dir \<Rightarrow>
              (case save_json E manifest_data (path_join output_dir (source_type @ ''.json'')) w2 of
                 (Inl e, w) \<Rightarrow> (Inl e, w)
               | (Inr u, w) \<Rightarrow> (Inr manifest_data, log_msg Info
                   (''Successfully generated and saved manifest: '' @
                      path_join output_dir (source_type @ ''.json'')) w))))"
    using assms(2) latest loop
    by (auto simp: generate_manifest_def Let_def w1_def split: sum.splits option.splits)
  from g assms(1) obtain md where md: "res = Inr md" by (cases res) auto
  from g assms(1) md obtain output_dir where od: "manifests_output_dir E = Some output_dir"
    by (cases "manifests_output_dir E") auto
  let ?path = "path_join output_dir (source_type @ ''.json'')"
  from g assms(1) md od have ok: "save_json_ok E ?path"
    by (auto simp: save_json_def split: if_splits)
  from g assms(1) md od ok have m: "m = md"
    and w': "w' = log_msg Info (''Successfully generated and saved manifest: '' @ ?path)
        (w2\<lparr>saved_json := saved_json w2 @ [(?path, md)]\<rparr>)"
    by (auto simp: save_json_def)
  have "saved_json w2 = saved_json w1"
    using manifest_loop_saved [of E source_type source_dir default_dest_dir possible_dest_dirs
      overrides base_installer_only latest "[]" w1] loop by simp
  then have s: "saved_json w' = saved_json w @ [(?path, m)]"
    using w' m by (simp add: log_msg_def w1_def)
  have "\<exists>new. md = [] @ new \<and>
           list_all2 (\<lambda>p e. fst e = fst p \<and>
               game_record E source_type source_dir default_dest_dir possible_dest_dirs overrides
                 base_installer_only (fst p) (snd p) = Inr (snd e)) latest new"
    using loop md latest_keys_distinct [OF latest]
    by (intro manifest_loop_result [where w = w1 and w' = w2]) simp_all
  then have "list_all2 (\<lambda>p e. fst e = fst p \<and>
               game_record E source_type source_dir default_dest_dir possible_dest_dirs overrides
                 base_installer_only (fst p) (snd p) = Inr (snd e)) latest m"
    using m by simp
  then show ?thesis using latest od ok s by blast
qed

lemma list_all2_right_member:
  "list_all2 P xs ys \<Longrightarrow> y \<in> set ys \<Longrightarrow> \<exists>x \<in> set xs. P x y"
  by (induction rule: list_all2_induct) auto

lemma list_all2_left_member:
  "list_all2 P xs ys \<Longrightarrow> x \<in> set xs \<Longrightarrow> \<exists>y \<in> set ys. P x y"
  by (induction rule: list_all2_induct) auto

lemma list_all2_same_keys:
  "list_all2 (\<lambda>p e. fst e = fst p \<and> Q p e) xs ys \<Longrightarrow> map fst ys = map fst xs"
  by (induction rule: list_all2_induct) auto

lemma manifest_loop_returns:
  assumes "\<forall>p \<in> set pairs. \<exists>r. game_record E source_type source_dir default_dest_dir
             possible_dest_dirs overrides base_installer_only (fst p) (snd p) = Inr r"
  shows "\<exists>m w'. manifest_loop E source_type source_dir default_dest_dir possible_dest_dirs overrides
             base_installer_only pairs manifest_data w = (Inr m, w')"
  using assms
proof (induction pairs arbitrary: manifest_data w)
  case Nil
  then show ?case by simp
next
  case (Cons p pairs)
  obtain k f where p: "p = (k, f)" by (cases p)
  from Cons.prems p obtain r where r: "game_record E source_type source_dir default_dest_dir
      possible_dest_dirs overrides base_installer_only k f = Inr r" by auto
  from Cons.prems have rest: "\<forall>p \<in> set pairs. \<exists>r. game_record E source_type source_dir
      default_dest_dir possible_dest_dirs overrides base_installer_only (fst p) (snd p) = Inr r"
    by simp
  show ?case
    unfolding p using r Cons.IH [OF rest] by (simp add: Let_def)
qed

lemma generate_manifest_returns:
  assumes "is_dir (file_system E) source_dir"
    and "get_latest_source_folder_by_game_key source_type
           (dir_entries (file_system E) source_dir) ignores = Inr latest"
    and "\<forall>p \<in> set latest. \<exists>r. game_record E source_type source_dir default_dest_dir
             possible_dest_dirs overrides base_installer_only (fst p) (snd p) = Inr r"
    and "manifests_output_dir E = Some output_dir"
    and "save_json_ok E (path_join output_dir (source_type @ ''.json''))"
  shows "\<exists>m w'. generate_manifest E source_type source_dir default_dest_dir possible_dest_dirs
           ignores overrides base_installer_only w = (Inr m, w')"
proof -
  define w1 where "w1 = log_msg Info
     (''Generating manifest data for source type '' @ quoted source_type @ ''...'') w"
  obtain md w2 where loop: "manifest_loop E source_type source_dir default_dest_dir
      possible_dest_dirs overrides base_installer_only latest [] w1 = (Inr md, w2)"
    using manifest_loop_returns [OF assms(3)] by blast
  show ?thesis
    using assms(1,2,4,5) loop
    by (simp add: generate_manifest_def Let_def w1_def save_json_def)
qed

lemma generate_manifest_not_dir:
  "\<not> is_dir (file_system E) source_dir \<Longrightarrow>
   fst (generate_manifest E source_type source_dir default_dest_dir possible_dest_dirs ignores
          overrides base_installer_only w) = Inr []"
  by (simp add: generate_manifest_def)

lemma manifest_entry:
  assumes "fst (generate_manifest E source_type source_dir default_dest_dir possible_dest_dirs
             ignores overrides base_installer_only w) = Inr m"
    and "(game_key, r) \<in> set m"
  shows "\<exists>latest source_folder_name.
           get_latest_source_folder_by_game_key source_type
             (dir_entries (file_system E) source_dir) ignores = Inr latest \<and>
           (game_key, source_folder_name) \<in> set latest \<and>
           game_record E source_type source_dir default_dest_dir possible_dest_dirs overrides
             base_installer_only game_key source_folder_name = Inr r"
proof -
  have d: "is_dir (file_system E) source_dir"
  proof (rule ccontr)
    assume "\<not> is_dir (file_system E) source_dir"
    then have "m = []" using assms(1) by (simp add: generate_manifest_not_dir)
    with assms(2) show False by simp
  qed
  obtain w' where "generate_manifest E source_type source_dir default_dest_dir possible_dest_dirs
      ignores overrides base_installer_only w = (Inr m, w')"
    using assms(1) by (metis prod.collapse)
  then obtain latest where l: "get_latest_source_folder_by_game_key source_type
        (dir_entries (file_system E) source_dir) ignores = Inr latest"
      "list_all2 (\<lambda>p e. fst e = fst p \<and>
         game_record E source_type source_dir default_dest_dir possible_dest_dirs overrides
           base_installer_only (fst p) (snd p) = Inr (snd e)) latest m"
    using generate_manifest_result [OF _ d] by blast
  from list_all2_right_member [OF l(2) assms(2)]
  obtain p where "p \<in> set latest" "fst p = game_key"
    "game_record E source_type source_dir default_dest_dir possible_dest_dirs overrides
       base_installer_only (fst p) (snd p) = Inr r"
    by auto
  then have "(game_key, snd p) \<in> set latest \<and>
      game_record E source_type source_dir default_dest_dir possible_dest_dirs overrides
        base_installer_only game_key (snd p) = Inr r"
    by auto
  with l(1) show ?thesis by blast
qed

text \<open>
  C5: in every record of a manifest that \<open>generate_manifest\<close> returns, the destination is
  \<open>{dir}/{folder_name}\<close> for the first of the possible destination directories where that
  path is a directory with an entry, and \<open>default_dest_dir/{folder_name}\<close> when there is
  none. Nothing but the existence and the entries of these paths is read.
\<close>

theorem destination_is_first_populated:
  assumes "fst (generate_manifest E source_type source_dir default_dest_dir possible_dest_dirs
             ignores overrides base_installer_only w) = Inr m"
    and "(game_key, r) \<in> set m"
  shows "destination_directory r =
           (case List.find (\<lambda>d. populated (file_system E) (path_join d (game_name r)))
                   possible_dest_dirs of
              Some d \<Rightarrow> path_join d (game_name r)
            | None \<Rightarrow> path_join default_dest_dir (game_name r))"
proof -
  obtain latest f where "game_record E source_type source_dir default_dest_dir
      possible_dest_dirs overrides base_installer_only game_key f = Inr r"
    using manifest_entry [OF assms] by blast
  then have "choose_dest_dir (file_system E) (game_name r)
      (path_join default_dest_dir (game_name r)) possible_dest_dirs = Inr (destination_directory r)"
    using game_record_fields by blast
  then show ?thesis by (rule choose_dest_dir_result)
qed

theorem destination_is_first_populated_witness:
  "fst (generate_manifest example_env ''gog-games'' ''/src'' ''/games0'' [''/games1'', ''/games2''] [''*_old'']
             example_overrides False empty_world) = Inr example_manifest \<and>
   (''mygame'', snd (hd example_manifest)) \<in> set example_manifest \<and>
   destination_directory (snd (hd example_manifest)) = ''/games2/Mygame'' \<and>
   List.find (\<lambda>d. populated (file_system example_env) (path_join d ''Mygame''))
     [''/games1'', ''/games2''] = Some ''/games2''"
proof -
  have run: "fst (generate_manifest example_env ''gog-games'' ''/src'' ''/games0'' [''/games1'', ''/games2''] [''*_old'']
             example_overrides False empty_world) = Inr example_manifest"
    by code_simp
  have mem: "(''mygame'', snd (hd example_manifest)) \<in> set example_manifest"
    by (simp add: example_manifest_def)
  have f: "List.find (\<lambda>d. populated (file_system example_env) (path_join d ''Mygame''))
     [''/games1'', ''/games2''] = Some ''/games2''"
    by code_simp
  have n: "game_name (snd (hd example_manifest)) = ''Mygame''"
    by (simp add: example_manifest_def)
  have "destination_directory (snd (hd example_manifest)) = ''/games2/Mygame''"
    using destination_is_first_populated [OF run mem] f n by (simp add: path_join_def startswith_def endswith_def)
  with run mem f show ?thesis by simp
qed

text \<open>
  C4, as stated, fails: an override that is the empty list is not taken; the installers
  are computed from the folder.
\<close>

theorem empty_override_not_taken:
  "fst (generate_manifest example_env ''gog-service'' ''/src'' ''/games0'' []
          [''*_old'', ''mygame*'', ''empty*''] empty_override False empty_world) =
   Inr [(''patched'',
         \<lparr>game_name = ''Patched'', game_version = None, source_directory = ''/src/patched'',
          destination_directory = ''/games0/Patched'',
          sorted_installers = [''setup_patched.exe'']\<rparr>)]"
  by code_simp

text \<open>
  C4, amended: for every record of a returned manifest, with the source folder it was
  built from: when the overrides map gives that folder a list that is not empty, the
  record's installers are that list as it is, whatever the folder holds; when the folder
  is absent from the map, or its list is empty, they are what the resolver returns.
\<close>

theorem override_used_when_not_empty:
  assumes "fst (generate_manifest E source_type source_dir default_dest_dir possible_dest_dirs
             ignores overrides base_installer_only w) = Inr m"
    and "(game_key, r) \<in> set m"
  shows "\<exists>latest source_folder_name.
           get_latest_source_folder_by_game_key source_type
             (dir_entries (file_system E) source_dir) ignores = Inr latest \<and>
           (game_key, source_folder_name) \<in> set latest \<and>
           source_directory r = path_join source_dir source_folder_name \<and>
           (case overrides source_folder_name of
              Some installers \<Rightarrow>
                if installers \<noteq> [] then sorted_installers r = installers
                else get_sorted_installers E (clean_game_key game_key)
                       (path_join source_dir source_folder_name) base_installer_only =
                     Inr (sorted_installers r)
            | None \<Rightarrow>
                get_sorted_installers E (clean_game_key game_key)
                  (path_join source_dir source_folder_name) base_installer_only =
                Inr (sorted_installers r))"
proof -
  obtain latest f where l: "get_latest_source_folder_by_game_key source_type
        (dir_entries (file_system E) source_dir) ignores = Inr latest"
      "(game_key, f) \<in> set latest"
      "game_record E source_type source_dir default_dest_dir
        possible_dest_dirs overrides base_installer_only game_key f = Inr r"
    using manifest_entry [OF assms] by blast
  from game_record_fields [OF l(3)]
  have s: "source_directory r = path_join source_dir f"
    and c: "choose_installers E overrides base_installer_only f (clean_game_key game_key)
        (path_join source_dir f) = Inr (sorted_installers r)"
    by simp_all
  have "(case overrides f of
              Some installers \<Rightarrow>
                if installers \<noteq> [] then sorted_installers r = installers
                else get_sorted_installers E (clean_game_key game_key)
                       (path_join source_dir f) base_installer_only =
                     Inr (sorted_installers r)
            | None \<Rightarrow>
                get_sorted_installers E (clean_game_key game_key)
                  (path_join source_dir f) base_installer_only =
                Inr (sorted_installers r))"
    using c by (auto simp: choose_installers_def override_given_def split: option.splits)
  with l(1,2) s show ?thesis by blast
qed

theorem override_used_when_not_empty_witness:
  "fst (generate_manifest example_env ''gog-games'' ''/src'' ''/games0'' [''/games1'', ''/games2''] [''*_old'']
             example_overrides False empty_world) = Inr example_manifest \<and>
   (''patched'', snd (last example_manifest)) \<in> set example_manifest \<and>
   example_overrides ''patched'' = Some [''setup_patched.exe'', ''patch_1.exe''] \<and>
   sorted_installers (snd (last example_manifest)) = [''setup_patched.exe'', ''patch_1.exe''] \<and>
   (\<exists>latest. get_latest_source_folder_by_game_key ''gog-games''
        (dir_entries (file_system example_env) ''/src'') [''*_old''] = Inr latest \<and>
      (''patched'', ''patched'') \<in> set latest)"
proof -
  have run: "fst (generate_manifest example_env ''gog-games'' ''/src'' ''/games0'' [''/games1'', ''/games2''] [''*_old'']
             example_overrides False empty_world) = Inr example_manifest"
    by code_simp
  have mem: "(''patched'', snd (last example_manifest)) \<in> set example_manifest"
    by (simp add: example_manifest_def)
  have ov: "example_overrides ''patched'' = Some [''setup_patched.exe'', ''patch_1.exe'']"
    by (simp add: example_overrides_def)
  have si: "sorted_installers (snd (last example_manifest)) = [''setup_patched.exe'', ''patch_1.exe'']"
    by (simp add: example_manifest_def)
  have sd: "source_directory (snd (last example_manifest)) = ''/src/patched''"
    by (simp add: example_manifest_def)
  obtain latest f where l: "get_latest_source_folder_by_game_key ''gog-games''
        (dir_entries (file_system example_env) ''/src'') [''*_old''] = Inr latest"
      "(''patched'', f) \<in> set latest"
      "source_directory (snd (last example_manifest)) = path_join ''/src'' f"
    using override_used_when_not_empty [OF run mem] by blast
  have "get_latest_source_folder_by_game_key ''gog-games''
        (dir_entries (file_system example_env) ''/src'') [''*_old''] =
      Inr [(''mygame'', ''mygame_windows_gog_(1.5.0)''), (''empty_game'', ''empty_game''),
           (''patched'', ''patched'')]"
    by code_simp
  with l(1,2) have "f = ''patched''" by auto
  with l(1,2) run mem ov si show ?thesis by blast
qed

text \<open>
  C10: for a source directory that exists, the grouper always returns its selection, and
  \<open>generate_manifest\<close> returns a manifest exactly when every selected key's record can be
  built and the manifest can be saved. The manifest returned has the selected keys as its
  keys, in the same order, and is the one saved. A key for whose folder no
  \<open>setup_*.exe\<close> is found and that has no override has its record in it, with an empty
  installer list, and is left out only by the consumer.
\<close>

theorem selected_keys_all_in_manifest:
  assumes "is_dir (file_system E) source_dir"
  shows "\<exists>latest.
     get_latest_source_folder_by_game_key source_type
       (dir_entries (file_system E) source_dir) ignores = Inr latest \<and>
     ((\<exists>m. fst (generate_manifest E source_type source_dir default_dest_dir possible_dest_dirs
               ignores overrides base_installer_only w) = Inr m) \<longleftrightarrow>
      (\<forall>p \<in> set latest. \<exists>r. game_record E source_type source_dir default_dest_dir
          possible_dest_dirs overrides base_installer_only (fst p) (snd p) = Inr r) \<and>
      (\<exists>output_dir. manifests_output_dir E = Some output_dir \<and>
          save_json_ok E (path_join output_dir (source_type @ ''.json'')))) \<and>
     (\<forall>m. fst (generate_manifest E source_type source_dir default_dest_dir possible_dest_dirs
               ignores overrides base_installer_only w) = Inr m \<longrightarrow>
        map fst m = map fst latest \<and>
        (\<exists>output_dir. manifests_output_dir E = Some output_dir \<and>
           saved_json (snd (generate_manifest E source_type source_dir default_dest_dir
               possible_dest_dirs ignores overrides base_installer_only w)) =
           saved_json w @ [(path_join output_dir (source_type @ ''.json''), m)]) \<and>
        (\<forall>p \<in> set latest. \<exists>r. (fst p, r) \<in> set m \<and>
           source_directory r = path_join source_dir (snd p) \<and>
           (glob_setup_exe E (path_join source_dir (snd p)) = [] \<and>
            \<not> override_given overrides (snd p) \<longrightarrow>
              sorted_installers r = [] \<and> (fst p, r) \<notin> set (games_to_extract m))))"
proof -
  let ?gen = "generate_manifest E source_type source_dir default_dest_dir possible_dest_dirs
               ignores overrides base_installer_only w"
  let ?rec = "game_record E source_type source_dir default_dest_dir
          possible_dest_dirs overrides base_installer_only"
  obtain latest where latest: "get_latest_source_folder_by_game_key source_type
       (dir_entries (file_system E) source_dir) ignores = Inr latest"
    using get_latest_result by blast
  have res: "list_all2 (\<lambda>p e. fst e = fst p \<and> ?rec (fst p) (snd p) = Inr (snd e)) latest m \<and>
      (\<exists>output_dir. manifests_output_dir E = Some output_dir \<and>
          save_json_ok E (path_join output_dir (source_type @ ''.json'')) \<and>
          saved_json (snd ?gen) = saved_json w @ [(path_join output_dir (source_type @ ''.json''), m)])"
    if "fst ?gen = Inr m" for m
  proof -
    from that have "?gen = (Inr m, snd ?gen)" by (metis prod.collapse)
    from generate_manifest_result [OF this assms] latest show ?thesis by auto
  qed
  have iff: "(\<exists>m. fst ?gen = Inr m) \<longleftrightarrow>
      (\<forall>p \<in> set latest. \<exists>r. ?rec (fst p) (snd p) = Inr r) \<and>
      (\<exists>output_dir. manifests_output_dir E = Some output_dir \<and>
          save_json_ok E (path_join output_dir (source_type @ ''.json'')))"
  proof
    assume "\<exists>m. fst ?gen = Inr m"
    then obtain m where m: "fst ?gen = Inr m" by blast
    from res [OF m]
    have la: "list_all2 (\<lambda>p e. fst e = fst p \<and> ?rec (fst p) (snd p) = Inr (snd e)) latest m"
      by simp
    have "\<exists>r. ?rec (fst p) (snd p) = Inr r" if "p \<in> set latest" for p
      using list_all2_left_member [OF la that] by auto
    then have "\<forall>p \<in> set latest. \<exists>r. ?rec (fst p) (snd p) = Inr r" by simp
    with res [OF m] show "(\<forall>p \<in> set latest. \<exists>r. ?rec (fst p) (snd p) = Inr r) \<and>
      (\<exists>output_dir. manifests_output_dir E = Some output_dir \<and>
          save_json_ok E (path_join output_dir (source_type @ ''.json'')))" by blast
  next
    assume a: "(\<forall>p \<in> set latest. \<exists>r. ?rec (fst p) (snd p) = Inr r) \<and>
      (\<exists>output_dir. manifests_output_dir E = Some output_dir \<and>
          save_json_ok E (path_join output_dir (source_type @ ''.json'')))"
    then obtain output_dir where o: "manifests_output_dir E = Some output_dir"
      "save_json_ok E (path_join output_dir (source_type @ ''.json''))" by blast
    from a have r: "\<forall>p \<in> set latest. \<exists>r. ?rec (fst p) (snd p) = Inr r" by blast
    from generate_manifest_returns [OF assms latest r o, of w]
    show "\<exists>m. fst ?gen = Inr m" by force
  qed
  have props: "map fst m = map fst latest \<and>
        (\<exists>output_dir. manifests_output_dir E = Some output_dir \<and>
           saved_json (snd ?gen) = saved_json w @ [(path_join output_dir (source_type @ ''.json''), m)]) \<and>
        (\<forall>p \<in> set latest. \<exists>r. (fst p, r) \<in> set m \<and>
           source_directory r = path_join source_dir (snd p) \<and>
           (glob_setup_exe E (path_join source_dir (snd p)) = [] \<and>
            \<not> override_given overrides (snd p) \<longrightarrow>
              sorted_installers r = [] \<and> (fst p, r) \<notin> set (games_to_extract m)))"
    if m: "fst ?gen = Inr m" for m
  proof -
    note r = res [OF m]
    from r
    have la: "list_all2 (\<lambda>p e. fst e = fst p \<and> ?rec (fst p) (snd p) = Inr (snd e)) latest m"
      by simp
    have k: "map fst m = map fst latest" by (rule list_all2_same_keys [OF la])
    from r have sv: "\<exists>output_dir. manifests_output_dir E = Some output_dir \<and>
           saved_json (snd ?gen) = saved_json w @ [(path_join output_dir (source_type @ ''.json''), m)]"
      by auto
    have e: "\<exists>r. (fst p, r) \<in> set m \<and>
           source_directory r = path_join source_dir (snd p) \<and>
           (glob_setup_exe E (path_join source_dir (snd p)) = [] \<and>
            \<not> override_given overrides (snd p) \<longrightarrow>
              sorted_installers r = [] \<and> (fst p, r) \<notin> set (games_to_extract m))"
      if p: "p \<in> set latest" for p
    proof -
      from list_all2_left_member [OF la p]
      obtain e where e: "e \<in> set m" "fst e = fst p" "?rec (fst p) (snd p) = Inr (snd e)"
        by auto
      note f = game_record_fields [OF e(3)]
      have "sorted_installers (snd e) = []"
        if "glob_setup_exe E (path_join source_dir (snd p)) = []"
          "\<not> override_given overrides (snd p)"
      proof -
        from that(1) have "get_base_installer_path E (clean_game_key (fst p))
            (path_join source_dir (snd p)) = Inr None"
          by (simp add: get_base_installer_path_None)
        then have "get_sorted_installers E (clean_game_key (fst p))
            (path_join source_dir (snd p)) base_installer_only = Inr []"
          by (simp add: get_sorted_installers_def)
        with f that(2) show ?thesis by (simp add: choose_installers_def)
      qed
      moreover have "(fst p, snd e) \<notin> set (games_to_extract m)" if "sorted_installers (snd e) = []"
        using that by (auto simp: games_to_extract_def)
      moreover have "(fst p, snd e) \<in> set m" using e(1,2) by (metis prod.collapse)
      moreover have "source_directory (snd e) = path_join source_dir (snd p)" using f by simp
      ultimately show ?thesis by blast
    qed
    from k sv e show ?thesis by simp
  qed
  from latest iff props show ?thesis by blast
qed

theorem selected_keys_all_in_manifest_witness:
  "is_dir (file_system example_env) ''/src'' \<and>
   fst (generate_manifest example_env ''gog-games'' ''/src'' ''/games0'' [''/games1'', ''/games2''] [''*_old'']
             example_overrides False empty_world) = Inr example_manifest \<and>
   get_latest_source_folder_by_game_key ''gog-games''
     (dir_entries (file_system example_env) ''/src'') [''*_old''] =
     Inr [(''mygame'', ''mygame_windows_gog_(1.5.0)''), (''empty_game'', ''empty_game''),
          (''patched'', ''patched'')] \<and>
   map fst example_manifest = [''mygame'', ''empty_game'', ''patched''] \<and>
   map fst (games_to_extract example_manifest) = [''mygame'', ''patched''] \<and>
   (\<exists>output_dir. manifests_output_dir example_env = Some output_dir \<and>
      saved_json (snd (generate_manifest example_env ''gog-games'' ''/src'' ''/games0'' [''/games1'', ''/games2''] [''*_old'']
             example_overrides False empty_world)) =
      saved_json empty_world @ [(path_join output_dir (''gog-games'' @ ''.json''), example_manifest)])"
proof -
  have d: "is_dir (file_system example_env) ''/src''"
    by code_simp
  have run: "fst (generate_manifest example_env ''gog-games'' ''/src'' ''/games0'' [''/games1'', ''/games2''] [''*_old'']
             example_overrides False empty_world) = Inr example_manifest"
    by code_simp
  have l: "get_latest_source_folder_by_game_key ''gog-games''
     (dir_entries (file_system example_env) ''/src'') [''*_old''] =
     Inr [(''mygame'', ''mygame_windows_gog_(1.5.0)''), (''empty_game'', ''empty_game''),
          (''patched'', ''patched'')]"
    by code_simp
  have k: "map fst example_manifest = [''mygame'', ''empty_game'', ''patched'']"
    by (simp add: example_manifest_def)
  have x: "map fst (games_to_extract example_manifest) = [''mygame'', ''patched'']"
    by (simp add: example_manifest_def games_to_extract_def)
  have "\<exists>output_dir. manifests_output_dir example_env = Some output_dir \<and>
      saved_json (snd (generate_manifest example_env ''gog-games'' ''/src'' ''/games0'' [''/games1'', ''/games2''] [''*_old'']
             example_overrides False empty_world)) =
      saved_json empty_world @ [(path_join output_dir (''gog-games'' @ ''.json''), example_manifest)]"
    using selected_keys_all_in_manifest [OF d, of "''gog-games''" "[''*_old'']" "''/games0''"
        "[''/games1'', ''/games2'']" example_overrides False empty_world] run
    by blast
  with d run l k x show ?thesis by simp
qed

section \<open>Ignore patterns\<close>

lemma re_escape_Cons:
  "re_escape (c # p) = (if c \<in> set re_escaped_chars then [backslash, c] else [c]) @ re_escape p"
  by (simp add: re_escape_def)

lemma re_escape_no_star: "re_escape p \<noteq> CHR ''*'' # r"
  by (cases p) (auto simp: re_escape_def re_escaped_chars_def backslash_def)

lemma replace_escaped_star_step:
  assumes "c \<noteq> backslash \<or> (\<forall>r'. r \<noteq> CHR ''*'' # r')"
  shows "replace_escaped_star (c # r) = c # replace_escaped_star r"
  using assms by (cases r) auto

lemma replace_escaped_star_escape:
  "replace_escaped_star (re_escape (c # p)) =
     (if c = CHR ''*'' then ''.*''
      else if c \<in> set re_escaped_chars then [backslash, c] else [c]) @
     replace_escaped_star (re_escape p)"
proof (cases "c \<in> set re_escaped_chars")
  case False
  then have "c \<noteq> backslash" "c \<noteq> CHR ''*''" by (auto simp: re_escaped_chars_def)
  with False show ?thesis
    by (simp add: re_escape_Cons replace_escaped_star_step)
next
  case True
  show ?thesis
  proof (cases "c = CHR ''*''")
    case True
    then show ?thesis by (simp add: re_escape_Cons re_escaped_chars_def)
  next
    case False
    have "replace_escaped_star (c # re_escape p) = c # replace_escaped_star (re_escape p)"
      by (rule replace_escaped_star_step) (simp add: re_escape_no_star)
    with False \<open>c \<in> set re_escaped_chars\<close> show ?thesis
      by (simp add: re_escape_Cons)
  qed
qed

lemma re_parse_plain:
  assumes "c \<notin> set re_escaped_chars"
  shows "re_parse (c # r) = map_option (\<lambda>items. Lit c # items) (re_parse r)"
proof -
  from assms have "c \<noteq> backslash" "c \<noteq> CHR ''.''" "c \<notin> set re_special_chars"
    by (auto simp: re_escaped_chars_def re_special_chars_def)
  then show ?thesis by (cases r) auto
qed

lemma re_parse_escaped:
  assumes "c \<in> set re_escaped_chars"
  shows "re_parse (backslash # c # r) = map_option (\<lambda>items. Lit c # items) (re_parse r)"
proof -
  from assms have "\<not> is_ascii_alpha c" "\<not> is_ascii_digit c"
    by (auto simp: re_escaped_chars_def is_ascii_alpha_def is_ascii_digit_def code_point_def
        backslash_def)
  then show ?thesis by simp
qed

lemma re_parse_star: "re_parse (''.*'' @ r) = map_option (\<lambda>items. AnyStar # items) (re_parse r)"
  by (simp add: backslash_def)

lemma re_parse_ignore_pattern:
  "re_parse (replace_escaped_star (re_escape p)) = Some (pattern_items p)"
proof (induction p)
  case Nil
  then show ?case by (simp add: re_escape_def pattern_items_def)
next
  case (Cons c p)
  have ih: "re_parse (replace_escaped_star (re_escape p)) = Some (pattern_items p)" by (rule Cons.IH)
  show ?case
  proof (cases "c = CHR ''*''")
    case True
    then show ?thesis
      unfolding replace_escaped_star_escape using ih re_parse_star
      by (simp add: pattern_items_def)
  next
    case False
    then show ?thesis
      unfolding replace_escaped_star_escape using ih
      by (simp add: pattern_items_def re_parse_plain re_parse_escaped del: re_parse.simps)
  qed
qed

lemma re_match_any_star:
  "re_match_items (AnyStar # items) s \<longleftrightarrow>
     (\<exists>n \<le> length s. list_all not_newline (take n s) \<and> re_match_items items (drop n s))"
proof (induction s)
  case Nil
  then show ?case by simp
next
  case (Cons d s)
  let ?R = "\<lambda>n t. list_all not_newline (take n t) \<and> re_match_items items (drop n t)"
  have split: "(\<exists>n \<le> length (d # s). ?R n (d # s)) \<longleftrightarrow>
        re_match_items items (d # s) \<or> (d \<noteq> newline \<and> (\<exists>n \<le> length s. ?R n s))"
    (is "?L \<longleftrightarrow> ?A \<or> ?B")
  proof
    assume ?L
    then obtain n where n: "n \<le> length (d # s)" "?R n (d # s)" by blast
    show "?A \<or> ?B"
    proof (cases n)
      case 0
      with n show ?thesis by simp
    next
      case (Suc k)
      with n have "d \<noteq> newline \<and> k \<le> length s \<and> ?R k s" by (simp add: not_newline_def)
      then show ?thesis by blast
    qed
  next
    assume "?A \<or> ?B"
    then show ?L
    proof
      assume ?A
      then have "0 \<le> length (d # s) \<and> ?R 0 (d # s)" by simp
      then show ?L by blast
    next
      assume ?B
      then obtain n where "d \<noteq> newline" "n \<le> length s" "?R n s" by blast
      then have "Suc n \<le> length (d # s) \<and> ?R (Suc n) (d # s)" by (simp add: not_newline_def)
      then show ?L by blast
    qed
  qed
  have "re_match_items (AnyStar # items) (d # s) \<longleftrightarrow>
      re_match_items items (d # s) \<or> (d \<noteq> newline \<and> re_match_items (AnyStar # items) s)"
    by simp
  also have "\<dots> \<longleftrightarrow> re_match_items items (d # s) \<or> (d \<noteq> newline \<and> (\<exists>n \<le> length s. ?R n s))"
    using Cons.IH by simp
  also have "\<dots> \<longleftrightarrow> (\<exists>n \<le> length (d # s). ?R n (d # s))"
    using split by simp
  finally show ?case .
qed

lemma glob_match_star:
  "glob_match star_char (CHR ''*'' # ps) s \<longleftrightarrow>
     (\<exists>n \<le> length s. list_all star_char (take n s) \<and> glob_match star_char ps (drop n s))"
proof -
  have "set [0..<Suc (length s)] = {n. n \<le> length s}" by auto
  then show ?thesis by (simp add: list_ex_iff Bex_def del: upt_Suc set_upt)
qed

lemma re_match_pattern_items:
  "re_match_items (pattern_items p) s \<longleftrightarrow> glob_match not_newline p s"
proof (induction p arbitrary: s)
  case Nil
  then show ?case by (simp add: pattern_items_def)
next
  case (Cons c p)
  show ?case
  proof (cases "c = CHR ''*''")
    case True
    have "re_match_items (pattern_items (c # p)) s \<longleftrightarrow>
        re_match_items (AnyStar # pattern_items p) s"
      using True by (simp add: pattern_items_def)
    also have "\<dots> \<longleftrightarrow> (\<exists>n \<le> length s. list_all not_newline (take n s) \<and>
        re_match_items (pattern_items p) (drop n s))"
      by (rule re_match_any_star)
    also have "\<dots> \<longleftrightarrow> (\<exists>n \<le> length s. list_all not_newline (take n s) \<and>
        glob_match not_newline p (drop n s))"
      using Cons.IH by simp
    also have "\<dots> \<longleftrightarrow> glob_match not_newline (c # p) s"
      unfolding True by (rule glob_match_star [symmetric])
    finally show ?thesis .
  next
    case False
    then have "pattern_items (c # p) = Lit c # pattern_items p" by (simp add: pattern_items_def)
    with False Cons.IH show ?thesis by (cases s) simp_all
  qed
qed

lemma matches_ignore_pattern_glob:
  "matches_ignore_pattern p name \<longleftrightarrow> glob_match not_newline p name"
  by (simp add: matches_ignore_pattern_def re_fullmatch_def re_parse_ignore_pattern
      re_match_pattern_items)

lemma is_ignored_glob:
  "is_ignored ignores name \<longleftrightarrow> (\<exists>p \<in> set ignores. glob_match not_newline p name)"
  by (simp add: is_ignored_def list_ex_iff matches_ignore_pattern_glob)

lemma grouped_names_dict_append:
  "set (grouped_names (dict_append k (v, n) d)) = insert n (set (grouped_names d))"
proof (induction d)
  case Nil
  then show ?case by (simp add: grouped_names_def)
next
  case (Cons a d)
  obtain k' vs where a: "a = (k', vs)" by (cases a)
  have c: "set (grouped_names (x # xs)) = snd ` set (snd x) \<union> set (grouped_names xs)" for x xs
    by (simp add: grouped_names_def)
  show ?case
  proof (cases "k = k'")
    case True
    with a show ?thesis by (auto simp: c)
  next
    case False
    with a have "set (grouped_names (dict_append k (v, n) (a # d))) =
        snd ` set vs \<union> set (grouped_names (dict_append k (v, n) d))" by (simp add: c)
    also have "\<dots> = snd ` set vs \<union> insert n (set (grouped_names d))" by (simp only: Cons.IH)
    also have "\<dots> = insert n (set (grouped_names (a # d)))" using a by (auto simp: c)
    finally show ?thesis .
  qed
qed

lemma grouped_folders:
  "set (grouped_names (group_source_folders source_type ignores names groups)) =
     set (grouped_names groups) \<union> {n \<in> set names. \<not> is_ignored ignores n}"
proof (induction names arbitrary: groups)
  case Nil
  then show ?case by simp
next
  case (Cons n names)
  show ?case
  proof (cases "is_ignored ignores n")
    case True
    with Cons show ?thesis by auto
  next
    case False
    obtain k v where d: "derive_game_key source_type n = (k, v)"
      by (cases "derive_game_key source_type n")
    have "set (grouped_names (group_source_folders source_type ignores names
            (dict_append k (v, n) groups))) =
          set (grouped_names (dict_append k (v, n) groups)) \<union>
          {n \<in> set names. \<not> is_ignored ignores n}"
      by (rule Cons.IH)
    then have "set (grouped_names (group_source_folders source_type ignores (n # names) groups)) =
          insert n (set (grouped_names groups)) \<union> {n \<in> set names. \<not> is_ignored ignores n}"
      using False d by (simp add: grouped_names_dict_append)
    also have "\<dots> = set (grouped_names groups) \<union> {m \<in> set (n # names). \<not> is_ignored ignores m}"
      using False by auto
    finally show ?thesis .
  qed
qed

lemma latest_folder_kept:
  assumes "get_latest_source_folder_by_game_key source_type listing ignores = Inr latest"
    and "(k, f) \<in> set latest"
  shows "f \<in> set listing \<and> \<not> is_ignored ignores f"
proof -
  let ?groups = "group_source_folders source_type ignores listing []"
  from get_latest_result [of source_type listing ignores] assms(1)
  have la: "list_all2 (\<lambda>g l. fst l = fst g \<and> (\<exists>v rest. sort_reverse (snd g) = (v, snd l) # rest))
       ?groups latest" by auto
  from list_all2_right_member [OF la assms(2)]
  obtain g v rest where g: "g \<in> set ?groups" "sort_reverse (snd g) = (v, f) # rest" by auto
  then have "(v, f) \<in> set (sort_reverse (snd g))" by simp
  then have "(v, f) \<in> set (snd g)" by (simp add: sort_reverse_set)
  with g(1) have "f \<in> set (grouped_names ?groups)"
    by (force simp: grouped_names_def)
  then have "f \<in> set (grouped_names []) \<union> {n \<in> set listing. \<not> is_ignored ignores n}"
    by (simp only: grouped_folders)
  then show ?thesis by (simp add: grouped_names_def)
qed

text \<open>
  C7, as stated, fails: a \<open>*\<close> does not match a newline (the pattern becomes \<^verbatim>\<open>.*\<close> and no
  \<open>re.DOTALL\<close> flag is given). The pattern \<open>*\<close> matches the name \<open>a\nb\<close> when \<open>*\<close> stands for
  any character sequence, but the folder is not ignored and stays in the selection.
\<close>

theorem star_stops_at_newline:
  "glob_match any_char ''*'' [CHR ''a'', newline, CHR ''b''] \<and>
   \<not> is_ignored [''*''] [CHR ''a'', newline, CHR ''b''] \<and>
   get_latest_source_folder_by_game_key ''gog-service'' [[CHR ''a'', newline, CHR ''b'']] [''*''] =
     Inr [([CHR ''a'', newline, CHR ''b''], [CHR ''a'', newline, CHR ''b''])]"
  by code_simp

text \<open>
  C7, amended: a folder name is ignored if and only if some ignore pattern matches the whole
  name, where \<open>*\<close> matches any sequence of characters other than the newline and every
  other pattern character matches only itself. The folders that enter the groups are the
  listed names that are not ignored; a selected folder is one of them, and so is the
  source folder of every record of a returned manifest. The pattern \<open>*_old\<close> drops the
  folder \<open>mygame_old\<close>.
\<close>

theorem ignored_iff_pattern_matches:
  "(is_ignored ignores name \<longleftrightarrow> (\<exists>p \<in> set ignores. glob_match not_newline p name)) \<and>
   (name \<in> set (grouped_names (group_source_folders source_type ignores listing [])) \<longleftrightarrow>
      name \<in> set listing \<and> \<not> is_ignored ignores name) \<and>
   (\<forall>latest. get_latest_source_folder_by_game_key source_type listing ignores = Inr latest \<longrightarrow>
      (\<forall>l \<in> set latest. snd l \<in> set listing \<and> \<not> is_ignored ignores (snd l))) \<and>
   (\<forall>m. fst (generate_manifest E source_type source_dir default_dest_dir possible_dest_dirs
             ignores overrides base_installer_only w) = Inr m \<longrightarrow>
      (\<forall>e \<in> set m. \<exists>f \<in> set (dir_entries (file_system E) source_dir).
          \<not> is_ignored ignores f \<and> source_directory (snd e) = path_join source_dir f)) \<and>
   is_ignored [''*_old''] ''mygame_old''"
proof -
  have a: "name \<in> set (grouped_names (group_source_folders source_type ignores listing [])) \<longleftrightarrow>
      name \<in> set listing \<and> \<not> is_ignored ignores name"
    by (simp add: grouped_folders) (simp add: grouped_names_def)
  have b: "snd l \<in> set listing \<and> \<not> is_ignored ignores (snd l)"
    if "get_latest_source_folder_by_game_key source_type listing ignores = Inr latest"
      "l \<in> set latest" for latest l
    using latest_folder_kept [OF that(1), of "fst l" "snd l"] that(2) by simp
  have c: "\<exists>f \<in> set (dir_entries (file_system E) source_dir).
          \<not> is_ignored ignores f \<and> source_directory (snd e) = path_join source_dir f"
    if m: "fst (generate_manifest E source_type source_dir default_dest_dir possible_dest_dirs
             ignores overrides base_installer_only w) = Inr m" and e: "e \<in> set m" for m e
  proof -
    from e have "(fst e, snd e) \<in> set m" by simp
    from manifest_entry [OF m this]
    obtain latest f where l: "get_latest_source_folder_by_game_key source_type
          (dir_entries (file_system E) source_dir) ignores = Inr latest"
        "(fst e, f) \<in> set latest"
        "game_record E source_type source_dir default_dest_dir possible_dest_dirs overrides
           base_installer_only (fst e) f = Inr (snd e)"
      by blast
    from latest_folder_kept [OF l(1,2)] game_record_fields [OF l(3)]
    show ?thesis by blast
  qed
  have d: "is_ignored [''*_old''] ''mygame_old''" by code_simp
  from is_ignored_glob a b c d show ?thesis by blast
qed

theorem ignored_iff_pattern_matches_witness:
  "is_ignored [''*_old''] ''notes_old'' \<and>
   glob_match not_newline ''*_old'' ''notes_old'' \<and>
   ''notes_old'' \<in> set (dir_entries (file_system example_env) ''/src'') \<and>
   ''notes_old'' \<notin> set (grouped_names (group_source_folders ''gog-games'' [''*_old'']
      (dir_entries (file_system example_env) ''/src'') [])) \<and>
   ''patched'' \<in> set (grouped_names (group_source_folders ''gog-games'' [''*_old'']
      (dir_entries (file_system example_env) ''/src'') []))"
proof -
  have a: "is_ignored [''*_old''] ''notes_old''" by code_simp
  have b: "glob_match not_newline ''*_old'' ''notes_old''" by code_simp
  have c: "''notes_old'' \<in> set (dir_entries (file_system example_env) ''/src'')" by code_simp
  have d: "''patched'' \<in> set (dir_entries (file_system example_env) ''/src'')" by code_simp
  have e: "\<not> is_ignored [''*_old''] ''patched''" by code_simp
  note t = ignored_iff_pattern_matches [of _ _ "''gog-games''"
      "dir_entries (file_system example_env) ''/src''" example_env "''/src''" "''/games0''" "[]"
      Map.empty False empty_world]
  have "''notes_old'' \<notin> set (grouped_names (group_source_folders ''gog-games'' [''*_old'']
      (dir_entries (file_system example_env) ''/src'') []))"
    using t [of "[''*_old'']" "''notes_old''"] a by blast
  moreover have "''patched'' \<in> set (grouped_names (group_source_folders ''gog-games'' [''*_old'']
      (dir_entries (file_system example_env) ''/src'') []))"
    using t [of "[''*_old'']" "''patched''"] d e by blast
  ultimately show ?thesis using a b c by simp
qed

section \<open>Writing and reading the metadata file\<close>

lemma last_dropWhile: "dropWhile P xs \<noteq> [] \<Longrightarrow> last (dropWhile P xs) = last xs"
  by (induction xs) (auto split: if_splits)

lemma strip_id:
  assumes "s = [] \<or> (\<not> is_space (hd s) \<and> \<not> is_space (last s))"
  shows "strip s = s"
proof (cases "s = []")
  case True
  then show ?thesis by (simp add: strip_def)
next
  case False
  with assms have h: "\<not> is_space (hd s)" and l: "\<not> is_space (last s)" by auto
  from h False have a: "dropWhile is_space s = s" by (cases s) auto
  from l False have "\<not> is_space (hd (rev s))" by (simp add: hd_rev)
  with False have "dropWhile is_space (rev s) = rev s" by (cases "rev s") auto
  with a show ?thesis by (simp add: strip_def)
qed

lemma strip_ends:
  "strip s = [] \<or> (\<not> is_space (hd (strip s)) \<and> \<not> is_space (last (strip s)))"
proof (cases "strip s = []")
  case True
  then show ?thesis by simp
next
  case False
  let ?t = "dropWhile is_space s"
  let ?u = "dropWhile is_space (rev ?t)"
  have s: "strip s = rev ?u" by (simp add: strip_def)
  with False have u: "?u \<noteq> []" by simp
  then have "\<not> is_space (hd ?u)" by (rule hd_dropWhile)
  then have l: "\<not> is_space (last (strip s))" using u s by (simp add: last_rev)
  have t: "?t \<noteq> []"
  proof
    assume "?t = []"
    then have "?u = []" by (simp only: rev.simps dropWhile.simps)
    with u show False by (simp only:)
  qed
  then have "\<not> is_space (hd ?t)" by (rule hd_dropWhile)
  moreover have "last ?u = last (rev ?t)" using u by (rule last_dropWhile)
  ultimately have "\<not> is_space (last ?u)" using t by (simp add: last_rev)
  then have "\<not> is_space (hd (strip s))" using u s by (simp add: hd_rev)
  with l show ?thesis by simp
qed

lemma strip_strip: "strip (strip s) = strip s"
  using strip_ends [of s] by (rule strip_id)

lemma meta_key_char_not_space: "is_meta_key_char c \<Longrightarrow> \<not> is_space c"
  by (auto simp: is_meta_key_char_def is_word_def is_space_def is_ascii_digit_def
      is_ascii_alpha_def Let_def code_point_def)

lemma universal_newlines_step:
  "c \<noteq> carriage_return \<Longrightarrow> universal_newlines (c # s) = c # universal_newlines s"
  by (cases s) auto

lemma universal_newlines_append:
  "carriage_return \<notin> set l \<Longrightarrow> universal_newlines (l @ rest) = l @ universal_newlines rest"
  by (induction l) (auto simp: universal_newlines_step)

lemma split_lines_line:
  "newline \<notin> set l \<Longrightarrow>
   split_lines current (l @ newline # rest) = (current @ l @ [newline]) # split_lines [] rest"
  by (induction l arbitrary: current) auto

lemma takeWhile_run: "list_all P xs \<Longrightarrow> \<not> P y \<Longrightarrow> takeWhile P (xs @ y # ys) = xs"
  by (induction xs) auto

lemma dropWhile_run: "list_all P xs \<Longrightarrow> \<not> P y \<Longrightarrow> dropWhile P (xs @ y # ys) = y # ys"
  by (induction xs) auto

lemma parse_written_line:
  assumes k: "is_meta_key key"
    and v: "strip written = written" "no_line_break written"
  shows "parse_meta_line (key @ '': '' @ written @ [newline]) = Some (key, written)"
proof -
  from k have kne: "key \<noteq> []" and kall: "list_all is_meta_key_char key"
    by (simp_all add: is_meta_key_def)
  have colon: "\<not> is_meta_key_char (CHR '':'')" "\<not> is_space (CHR '':'')"
    by (simp_all add: is_meta_key_char_def is_word_def is_space_def is_ascii_digit_def
        is_ascii_alpha_def Let_def code_point_def)
  have sp: "is_space (CHR '' '')" "is_space newline"
    by (simp_all add: is_space_def code_point_def newline_def)
  let ?line = "key @ CHR '':'' # CHR '' '' # written @ [newline]"
  from kne kall have "\<not> is_space (hd key)"
    by (cases key) (auto simp: meta_key_char_not_space)
  with kne have indent: "dropWhile is_space ?line = ?line" by (cases key) auto
  have g1: "takeWhile is_meta_key_char ?line = key"
    using kall colon(1) by (rule takeWhile_run)
  have rest: "dropWhile is_meta_key_char ?line = CHR '':'' # CHR '' '' # written @ [newline]"
    using kall colon(1) by (rule dropWhile_run)
  have after: "dropWhile is_space (CHR '':'' # CHR '' '' # written @ [newline]) =
      CHR '':'' # CHR '' '' # written @ [newline]"
    using colon(2) by simp
  have nl: "newline \<notin> set written" using v(2) by (auto simp: no_line_break_def list_all_iff)
  have g2: "takeWhile (\<lambda>c. c \<noteq> newline)
      (dropWhile is_space (tl (CHR '':'' # CHR '' '' # written @ [newline]))) = written"
  proof (cases "written = []")
    case True
    then show ?thesis using sp by simp
  next
    case False
    with v(1) strip_ends [of written] have "\<not> is_space (hd written)" by simp
    with False have "dropWhile is_space (written @ [newline]) = written @ [newline]"
      by (cases written) auto
    moreover have "takeWhile (\<lambda>c. c \<noteq> newline) (written @ [newline]) = written"
      using nl by (induction written) auto
    ultimately show ?thesis using sp by simp
  qed
  have sk: "strip key = key"
  proof (rule strip_id)
    from kne kall have "\<not> is_space (hd key) \<and> \<not> is_space (last key)"
      by (metis hd_in_set last_in_set list_all_iff meta_key_char_not_space)
    then show "key = [] \<or> (\<not> is_space (hd key) \<and> \<not> is_space (last key))" by simp
  qed
  have st: "startswith '':'' (CHR '':'' # CHR '' '' # written @ [newline])"
    by (simp add: startswith_def)
  have "parse_meta_line ?line =
      (if key \<noteq> [] \<and> startswith '':'' (CHR '':'' # CHR '' '' # written @ [newline])
       then Some (strip key, strip (takeWhile (\<lambda>c. c \<noteq> newline)
              (dropWhile is_space (tl (CHR '':'' # CHR '' '' # written @ [newline])))))
       else None)"
    by (simp only: parse_meta_line_def Let_def indent g1 rest after)
  also have "\<dots> = Some (key, written)"
    by (simp only: kne st g2 sk v(1) simp_thms if_True)
  finally show ?thesis by simp
qed

lemma read_written_line:
  assumes "is_meta_key (fst item)" and "no_line_break (strip (py_str (snd item)))"
  shows "read_meta_step data (meta_line item) =
           dict_set (fst item) (null_if_none (strip (py_str (snd item)))) data"
proof -
  from assms(1) have kne: "fst item \<noteq> []" and kall: "list_all is_meta_key_char (fst item)"
    by (simp_all add: is_meta_key_def)
  have sk: "strip (fst item) = fst item"
  proof (rule strip_id)
    from kne kall have "\<not> is_space (hd (fst item)) \<and> \<not> is_space (last (fst item))"
      by (metis hd_in_set last_in_set list_all_iff meta_key_char_not_space)
    then show "fst item = [] \<or> (\<not> is_space (hd (fst item)) \<and> \<not> is_space (last (fst item)))"
      by simp
  qed
  have "parse_meta_line (fst item @ '': '' @ strip (py_str (snd item)) @ [newline]) =
      Some (fst item, strip (py_str (snd item)))"
    using assms(1) strip_strip assms(2) by (rule parse_written_line)
  then have "parse_meta_line (meta_line item) = Some (fst item, strip (py_str (snd item)))"
    by (simp add: meta_line_def sk)
  then show ?thesis using kne by (simp add: read_meta_step_def null_if_none_def)
qed

lemma meta_line_no_break:
  assumes "is_meta_key (fst item)" and "no_line_break (strip (py_str (snd item)))"
  shows "\<exists>l. meta_line item = l @ [newline] \<and> newline \<notin> set l \<and> carriage_return \<notin> set l"
proof -
  from assms(1) have kne: "fst item \<noteq> []" and kall: "list_all is_meta_key_char (fst item)"
    by (simp_all add: is_meta_key_def)
  have sk: "strip (fst item) = fst item"
  proof (rule strip_id)
    from kne kall have "\<not> is_space (hd (fst item)) \<and> \<not> is_space (last (fst item))"
      by (metis hd_in_set last_in_set list_all_iff meta_key_char_not_space)
    then show "fst item = [] \<or> (\<not> is_space (hd (fst item)) \<and> \<not> is_space (last (fst item)))"
      by simp
  qed
  have sp: "is_space newline" "is_space carriage_return"
    by (simp_all add: is_space_def code_point_def newline_def carriage_return_def)
  have "c \<noteq> newline \<and> c \<noteq> carriage_return" if "c \<in> set (fst item)" for c
    using that kall sp meta_key_char_not_space by (auto simp: list_all_iff)
  moreover have "c \<noteq> newline \<and> c \<noteq> carriage_return" if "c \<in> set (strip (py_str (snd item)))" for c
    using that assms(2) by (auto simp: no_line_break_def list_all_iff)
  ultimately have "newline \<notin> set (fst item @ '': '' @ strip (py_str (snd item))) \<and>
      carriage_return \<notin> set (fst item @ '': '' @ strip (py_str (snd item)))"
    by (auto simp: newline_def carriage_return_def)
  moreover have "meta_line item = (fst item @ '': '' @ strip (py_str (snd item))) @ [newline]"
    by (simp add: meta_line_def sk)
  ultimately show ?thesis by blast
qed

lemma lines_of_written:
  assumes "\<forall>item \<in> set game_data. is_meta_key (fst item) \<and> no_line_break (strip (py_str (snd item)))"
  shows "split_lines [] (universal_newlines (concat (map meta_line game_data))) =
           map meta_line game_data"
  using assms
proof (induction game_data)
  case Nil
  then show ?case by simp
next
  case (Cons item game_data)
  then obtain l where l: "meta_line item = l @ [newline]" "newline \<notin> set l"
      "carriage_return \<notin> set l"
    using meta_line_no_break [of item] by auto
  have cr: "carriage_return \<notin> set (l @ [newline])"
    using l(3) by (simp add: newline_def carriage_return_def)
  have "split_lines [] (universal_newlines (concat (map meta_line (item # game_data)))) =
      split_lines [] ((l @ [newline]) @ universal_newlines (concat (map meta_line game_data)))"
    using universal_newlines_append [OF cr] l(1) by simp
  also have "\<dots> = (l @ [newline]) # split_lines [] (universal_newlines (concat (map meta_line game_data)))"
    using split_lines_line [OF l(2), of "[]"] by simp
  also have "\<dots> = map meta_line (item # game_data)"
    using Cons l(1) by simp
  finally show ?case .
qed

lemma read_written_lines:
  assumes "\<forall>item \<in> set game_data. is_meta_key (fst item) \<and> no_line_break (strip (py_str (snd item)))"
    and "distinct (map fst game_data)" and "fst ` set game_data \<inter> fst ` set data = {}"
  shows "foldl read_meta_step data (map meta_line game_data) =
           data @ map (\<lambda>item. (fst item, null_if_none (strip (py_str (snd item))))) game_data"
  using assms
proof (induction game_data arbitrary: data)
  case Nil
  then show ?case by simp
next
  case (Cons item game_data)
  let ?e = "(fst item, null_if_none (strip (py_str (snd item))))"
  from Cons.prems(3) have fresh: "fst item \<notin> fst ` set data" by auto
  have step: "read_meta_step data (meta_line item) = data @ [?e]"
    using Cons.prems(1) fresh by (simp add: read_written_line dict_set_fresh)
  have "fst ` set game_data \<inter> fst ` set (data @ [?e]) = {}"
    using Cons.prems(2,3) by auto
  moreover have "distinct (map fst game_data)" using Cons.prems(2) by simp
  moreover have "\<forall>item \<in> set game_data. is_meta_key (fst item) \<and>
      no_line_break (strip (py_str (snd item)))" using Cons.prems(1) by simp
  ultimately have "foldl read_meta_step (data @ [?e]) (map meta_line game_data) =
      (data @ [?e]) @ map (\<lambda>item. (fst item, null_if_none (strip (py_str (snd item))))) game_data"
    using Cons.IH by blast
  then show ?case using step by simp
qed

text \<open>
  C6, as stated, fails: a value is written stripped, so a value with a leading space is
  not read back as it was.
\<close>

theorem meta_value_read_back_stripped:
  "read_meta_file
     (snd (create_meta_file always_writable ''/games/Mygame''
        [(''game_name'', Some '' My Game'')] no_files)) ''/games/Mygame'' \<noteq> [(''game_name'', Some '' My Game'')] \<and>
   read_meta_file
     (snd (create_meta_file always_writable ''/games/Mygame''
        [(''game_name'', Some '' My Game'')] no_files)) ''/games/Mygame'' = [(''game_name'', Some ''My Game'')]"
  by code_simp

text \<open>
  C6, amended: when the metadata file can be written, the keys are distinct and match
  \<open>[\w-]+\<close>, and no value, rendered and stripped, holds a line break (\<open>\n\<close> or \<open>\r\<close>), reading
  the file back yields for every key, in the same order, the stripped value, or null when
  that is empty or case-insensitively \<open>none\<close> (a null value is written as \<open>None\<close>). So the
  original mapping is read back, up to these nulls, when moreover no value has leading or
  trailing whitespace.
\<close>

theorem meta_file_round_trip:
  assumes "distinct (map fst game_data)"
    and "\<forall>item \<in> set game_data. is_meta_key (fst item) \<and> no_line_break (strip (py_str (snd item)))"
    and "can_write (path_join target_dir ''!meta.txt'')"
  shows "fst (create_meta_file can_write target_dir game_data files) \<and>
         read_meta_file (snd (create_meta_file can_write target_dir game_data files)) target_dir =
           map (\<lambda>item. (fst item, null_if_none (strip (py_str (snd item))))) game_data \<and>
         ((\<forall>item \<in> set game_data. strip (py_str (snd item)) = py_str (snd item)) \<longrightarrow>
          read_meta_file (snd (create_meta_file can_write target_dir game_data files)) target_dir =
           map (\<lambda>item. (fst item, null_if_none (py_str (snd item)))) game_data)"
proof -
  have w: "create_meta_file can_write target_dir game_data files =
      (True, files(path_join target_dir ''!meta.txt'' \<mapsto> concat (map meta_line game_data)))"
    using assms(3) by (simp add: create_meta_file_def Let_def)
  have "read_meta_file (files(path_join target_dir ''!meta.txt'' \<mapsto>
        concat (map meta_line game_data))) target_dir =
      foldl read_meta_step [] (map meta_line game_data)"
    using lines_of_written [OF assms(2)] by (simp add: read_meta_file_def Let_def)
  also have "\<dots> = [] @ map (\<lambda>item. (fst item, null_if_none (strip (py_str (snd item))))) game_data"
    using assms(1,2) by (intro read_written_lines) simp_all
  finally have r: "read_meta_file (snd (create_meta_file can_write target_dir game_data files))
      target_dir = map (\<lambda>item. (fst item, null_if_none (strip (py_str (snd item))))) game_data"
    using w by simp
  have "map (\<lambda>item. (fst item, null_if_none (strip (py_str (snd item))))) game_data =
      map (\<lambda>item. (fst item, null_if_none (py_str (snd item)))) game_data"
    if "\<forall>item \<in> set game_data. strip (py_str (snd item)) = py_str (snd item)"
    using that by simp
  with r w show ?thesis by simp
qed

theorem meta_file_round_trip_witness:
  "distinct (map fst
     [(''game_name'', Some ''My Game''), (''game_version'', Some []),
      (''rel_launcher_path'', None), (''source-directory'', Some '' /src/mygame'')]) \<and>
   list_all (\<lambda>item. is_meta_key (fst item) \<and> no_line_break (strip (py_str (snd item))))
     [(''game_name'', Some ''My Game''), (''game_version'', Some []),
      (''rel_launcher_path'', None), (''source-directory'', Some '' /src/mygame'')] \<and>
   read_meta_file
     (snd (create_meta_file (\<lambda>p. True) ''/games/Mygame''
        [(''game_name'', Some ''My Game''), (''game_version'', Some []),
         (''rel_launcher_path'', None), (''source-directory'', Some '' /src/mygame'')]
        Map.empty)) ''/games/Mygame'' =
     [(''game_name'', Some ''My Game''), (''game_version'', None),
      (''rel_launcher_path'', None), (''source-directory'', Some ''/src/mygame'')]"
proof -
  let ?data = "[(''game_name'', Some ''My Game''), (''game_version'', Some []),
      (''rel_launcher_path'', None), (''source-directory'', Some '' /src/mygame'')]"
  have a: "distinct (map fst ?data)" by simp
  have b: "list_all (\<lambda>item. is_meta_key (fst item) \<and> no_line_break (strip (py_str (snd item))))
      ?data"
    by code_simp
  then have b': "\<forall>item \<in> set ?data. is_meta_key (fst item) \<and>
      no_line_break (strip (py_str (snd item)))"
    by (simp only: list_all_iff)
  have c: "(\<lambda>p. True) (path_join ''/games/Mygame'' ''!meta.txt'')" by simp
  have d: "map (\<lambda>item. (fst item, null_if_none (strip (py_str (snd item))))) ?data =
     [(''game_name'', Some ''My Game''), (''game_version'', None),
      (''rel_launcher_path'', None), (''source-directory'', Some ''/src/mygame'')]"
    by code_simp
  have "read_meta_file (snd (create_meta_file (\<lambda>p. True) ''/games/Mygame'' ?data Map.empty))
      ''/games/Mygame'' =
      map (\<lambda>item. (fst item, null_if_none (strip (py_str (snd item))))) ?data"
    using meta_file_round_trip [OF a b' c, where files = Map.empty] by blast
  with a b d show ?thesis by simp
qed

end
